theory Spec2Isabelle
  imports Complex_Main "HOL-Library.AList"
begin

section \<open>Values exchanged with the chain client\<close>

text \<open>
  The service of \<^verbatim>\<open>BE/src/services/solanaService.ts\<close> is embedded function by function.
  A JavaScript \<^verbatim>\<open>number\<close> is modelled as a \<^typ>\<open>real\<close>: the properties below use only
  the sign of a difference, its absolute value and comparison with zero, on which the
  double-precision subtraction of two finite numbers agrees with the exact one.
  A value that may be \<^verbatim>\<open>null\<close> or \<^verbatim>\<open>undefined\<close> is an \<^typ>\<open>'a option\<close>.
\<close>

record UiTokenAmount =
  uiAmount :: "real option"

record TokenBalance =
  owner :: "string option"
  mint :: string
  uiTokenAmount :: UiTokenAmount

record ParsedTransactionMeta =
  fee :: real
  preTokenBalances :: "TokenBalance list option"
  postTokenBalances :: "TokenBalance list option"

text \<open>
  \<open>accountKeys\<close> holds \<^verbatim>\<open>message.accountKeys[i].pubkey.toString()\<close>, the base-58 text
  of every account key, in order.
\<close>

record ParsedTransaction =
  signatures :: "string list"
  accountKeys :: "string list"

record ParsedTransactionWithMeta =
  blockTime :: "real option"
  meta :: "ParsedTransactionMeta option"
  transaction :: "ParsedTransaction option"

datatype TransactionType = buy | sell

text \<open>
  The record the service emits (\<^verbatim>\<open>Transaction\<close> of \<^verbatim>\<open>BE/src/types/index.ts\<close>).
  \<open>signature\<close> is \<^verbatim>\<open>signatures[0]\<close>, \<^verbatim>\<open>undefined\<close> for a transaction without
  signatures; \<open>timestamp\<close> is the argument of \<^verbatim>\<open>new Date\<close>, in milliseconds.
\<close>

record Transaction =
  signature :: "string option"
  timestamp :: real
  walletAddress :: string
  txType :: TransactionType
  amount :: real
  protocol :: string
  priceImpact :: real
  txFee :: real
  tokenPrice :: "real option"

section \<open>Protocol classifier\<close>

text \<open>
  The table of \<^verbatim>\<open>detectProtocol\<close>. \<^verbatim>\<open>Object.entries\<close> lists the string keys of an
  object literal in insertion order, so the table is an association list in the order
  of the literal.
\<close>

definition protocols :: "(string \<times> string list) list" where
  "protocols =
     [(''jupiter'',
         [''JUP4Fb2cqiRUcaTHdrPC8h2gNsA2ETXiPDD33WcGuJB'',
          ''JUP6LkbZbjS1jKKwapdHNy74zcZ3tLUZoi5QNyVTaV4'']),
      (''raydium'',
         [''675kPX9MHTjS2zt1qfr1NYHuzeLXfQM9H24wFSUt1Mp8'',
          ''5Q544fKrFoe6tsEbD7S8EmxGTJYAKtTVhAW5Q5pge4j1'']),
      (''orca'',
         [''9W959DqEETiGZocYWCQPaJ6sBmUzgfxXfqGeTEdp3aQP'',
          ''DjVE6JNiYqPL2QXyCUUh8rNjHrbz9hXHNYt99MQ59qw1''])]"

text \<open>The \<^verbatim>\<open>for ... of Object.entries(protocols)\<close> loop, over the rest of the table.\<close>

fun detectProtocol_loop :: "(string \<times> string list) list \<Rightarrow> string list \<Rightarrow> string" where
  "detectProtocol_loop [] keys = ''unknown''"
| "detectProtocol_loop ((name, ids) # rest) keys =
     (if list_ex (\<lambda>key. List.member ids key) keys then name
      else detectProtocol_loop rest keys)"

definition detectProtocol :: "string list \<Rightarrow> string" where
  "detectProtocol keys = detectProtocol_loop protocols keys"

section \<open>Balance delta and classification\<close>

text \<open>
  \<^verbatim>\<open>findBalance\<close>: the first entry whose owner is the address and whose mint is the
  monitored one gives its \<^verbatim>\<open>uiAmount\<close> (which may be \<^verbatim>\<open>null\<close>); no entry gives 0.
\<close>

definition findBalance :: "string \<Rightarrow> TokenBalance list \<Rightarrow> string \<Rightarrow> real option" where
  "findBalance tokenMint balances addr =
     (case find (\<lambda>b. owner b = Some addr \<and> mint b = tokenMint) balances of
        Some balance \<Rightarrow> uiAmount (uiTokenAmount balance)
      | None \<Rightarrow> Some 0)"

text \<open>The numeric coercion of the subtraction: \<^verbatim>\<open>null\<close> counts as 0.\<close>

definition toNumber :: "real option \<Rightarrow> real" where
  "toNumber v = (case v of None \<Rightarrow> 0 | Some x \<Rightarrow> x)"

definition calculateTokenBalanceChange ::
    "string \<Rightarrow> TokenBalance list \<Rightarrow> TokenBalance list \<Rightarrow> string \<Rightarrow> real" where
  "calculateTokenBalanceChange tokenMint preBalances postBalances addr =
     (let preBalance = findBalance tokenMint preBalances addr;
          postBalance = findBalance tokenMint postBalances addr
      in toNumber postBalance - toNumber preBalance)"

text \<open>\<^verbatim>\<open>x || []\<close> for a list that may be absent.\<close>

definition orEmpty :: "'a list option \<Rightarrow> 'a list" where
  "orEmpty v = (case v of None \<Rightarrow> [] | Some xs \<Rightarrow> xs)"

text \<open>
  \<^verbatim>\<open>analyzeTransaction\<close>. \<open>None\<close> is the \<^verbatim>\<open>null\<close> result. On a value of the
  declared input type no statement of the body throws, so the \<^verbatim>\<open>catch\<close> branch (which
  also returns \<^verbatim>\<open>null\<close>) has no input that reaches it.
\<close>

definition analyzeTransaction ::
    "string \<Rightarrow> ParsedTransactionWithMeta \<Rightarrow> string \<Rightarrow> Transaction option" where
  "analyzeTransaction tokenMint tx addr =
     (case (meta tx, transaction tx) of
        (Some m, Some t) \<Rightarrow>
          (let preBalances = orEmpty (preTokenBalances m);
               postBalances = orEmpty (postTokenBalances m);
               detected = detectProtocol (accountKeys t);
               tokenBalanceChange =
                 calculateTokenBalanceChange tokenMint preBalances postBalances addr
           in if tokenBalanceChange = 0 then None
              else Some \<lparr> signature = (case signatures t of [] \<Rightarrow> None | s # _ \<Rightarrow> Some s),
                          timestamp = toNumber (blockTime tx) * 1000,
                          walletAddress = addr,
                          txType = (if tokenBalanceChange > 0 then buy else sell),
                          amount = \<bar>tokenBalanceChange\<bar>,
                          protocol = detected,
                          priceImpact = 0,
                          txFee = fee m / 1000000000,
                          tokenPrice = Some 0 \<rparr>)
      | _ \<Rightarrow> None)"

text \<open>The delta \<^verbatim>\<open>analyzeTransaction\<close> computes for a transaction that has its metadata.\<close>

definition balanceDelta :: "string \<Rightarrow> ParsedTransactionMeta \<Rightarrow> string \<Rightarrow> real" where
  "balanceDelta tokenMint m addr =
     calculateTokenBalanceChange tokenMint
       (orEmpty (preTokenBalances m)) (orEmpty (postTokenBalances m)) addr"

section \<open>The surroundings of the service\<close>

text \<open>
  A thrown value: \<^verbatim>\<open>undefined\<close> (what \<^verbatim>\<open>throw lastError!\<close> raises when nothing was
  caught before) or an error object with its \<^verbatim>\<open>message\<close>, which may be absent.
\<close>

datatype Thrown = Undefined | Error (message: "string option")

text \<open>A member of \<^verbatim>\<open>connectionPool\<close>, by index, or \<^verbatim>\<open>this.connection\<close>.\<close>

datatype Connection = Pool nat | Primary

datatype Request =
    GetSignaturesForAddress Connection string int
  | GetParsedTransaction Connection string

text \<open>
  The trace lists, oldest first, what the service does to its surroundings: an admission
  recorded by the rate limiter (\<^verbatim>\<open>requests.push(now)\<close>), a request sent to the chain
  node, the query sent to the balance API, a listener opened or closed. Console output
  is not part of the model.
\<close>

datatype Event =
    Admitted int
  | Rpc Request
  | HoldersQuery
  | ListenerOpened Connection nat string
  | ListenerClosed Connection nat

record Wallet =
  address :: string
  tokenBalance :: real
  solBalance :: real
  firstSeen :: int
  lastActivity :: int
  transactionCount :: nat
  totalVolume :: real

text \<open>
  The state the service owns (\<open>requests\<close> of its \<^verbatim>\<open>RateLimiter\<close>, \<open>subscriptions\<close>,
  \<open>topHoldersCache\<close>, \<open>lastTopHolderFetch\<close>) together with the state of its
  surroundings: the clock \<^verbatim>\<open>Date.now()\<close> in milliseconds, the values \<^verbatim>\<open>Math.random()\<close>
  will return (0 once the list is used up), the listeners open at the chain client with
  the next listener id of each connection, and the records handed to
  \<^verbatim>\<open>dbManager.insertWallet\<close> and \<^verbatim>\<open>dbManager.insertTransaction\<close>.
  \<open>subscriptions\<close> is a JavaScript \<^verbatim>\<open>Map\<close>: an association list in insertion order.
\<close>

record world =
  now :: int
  rng :: "real list"
  trace :: "Event list"
  requests :: "int list"
  subscriptions :: "(string \<times> nat \<times> Connection) list"
  topHoldersCache :: "Wallet list"
  lastTopHolderFetch :: int
  listeners :: "(Connection \<times> nat \<times> string) list"
  nextListenerId :: "Connection \<Rightarrow> nat"
  insertedWallets :: "Wallet list"
  insertedTransactions :: "Transaction list"

text \<open>An entry of the balance API's answer: the account address and the parsed holding.\<close>

record BalanceUpdate =
  accountAddress :: string
  holding :: "real option"

text \<open>
  What the code does not decide: whether a text is a valid public key
  (\<^verbatim>\<open>new PublicKey\<close> throws otherwise), what the chain node and the balance API answer
  to a request (an answer may depend on everything that happened before), and how long
  an answer takes.
\<close>

record chain =
  validPublicKey :: "string \<Rightarrow> bool"
  signaturesResponse :: "world \<Rightarrow> string \<Rightarrow> int \<Rightarrow> Thrown + string list"
  transactionResponse :: "world \<Rightarrow> string \<Rightarrow> Thrown + ParsedTransactionWithMeta option"
  holdersResponse :: "world \<Rightarrow> Thrown + BalanceUpdate list option"
  latency :: "world \<Rightarrow> nat"

definition emit :: "Event \<Rightarrow> world \<Rightarrow> world" where
  "emit e w = w\<lparr>trace := trace w @ [e]\<rparr>"

text \<open>
  \<^verbatim>\<open>await new Promise(resolve => setTimeout(resolve, ms))\<close> for a whole number of
  milliseconds (a timer drops the fraction of its delay): the timer fires when due, and
  at once when the delay is not positive.
\<close>

definition sleep :: "int \<Rightarrow> world \<Rightarrow> world" where
  "sleep ms w = w\<lparr>now := now w + max 0 ms\<rparr>"

definition mathRandom :: "world \<Rightarrow> real \<times> world" where
  "mathRandom w = (case rng w of [] \<Rightarrow> (0, w) | r # rs \<Rightarrow> (r, w\<lparr>rng := rs\<rparr>))"

section \<open>RateLimiter\<close>

text \<open>
  \<^verbatim>\<open>waitForAvailability\<close> from its entry to its first suspension or its return, which
  JavaScript runs without interleaving: the result is \<open>None\<close> when the caller was
  admitted and \<open>Some waitTime\<close> when it has to sleep and call again.
  \<^verbatim>\<open>requests[0]\<close> of an empty list is \<^verbatim>\<open>undefined\<close>, the wait time is then \<^verbatim>\<open>NaN\<close> and
  \<^verbatim>\<open>waitTime > 0\<close> is false.
\<close>

definition waitForAvailability_step :: "nat \<Rightarrow> int \<Rightarrow> world \<Rightarrow> int option \<times> world" where
  "waitForAvailability_step maxRequests timeWindow w =
     (let t = now w;
          kept = filter (\<lambda>timestamp. t - timestamp < timeWindow) (requests w);
          w1 = w\<lparr>requests := kept\<rparr>;
          admitted = emit (Admitted t) (w1\<lparr>requests := kept @ [t]\<rparr>)
      in if length kept \<ge> maxRequests then
           (case kept of
              [] \<Rightarrow> (None, admitted)
            | oldestRequest # _ \<Rightarrow>
                (let waitTime = timeWindow - (t - oldestRequest)
                 in if waitTime > 0 then (Some waitTime, w1) else (None, admitted)))
         else (None, admitted))"

function waitForAvailability :: "nat \<Rightarrow> int \<Rightarrow> world \<Rightarrow> world" where
  "waitForAvailability maxRequests timeWindow w =
     (case waitForAvailability_step maxRequests timeWindow w of
        (None, w1) \<Rightarrow> w1
      | (Some waitTime, w1) \<Rightarrow> waitForAvailability maxRequests timeWindow (sleep waitTime w1))"
  by pat_completeness auto

termination
proof (relation "measure (\<lambda>(maxRequests, timeWindow, w).
         length (filter (\<lambda>timestamp. now w - timestamp < timeWindow) (requests w)))")
  show "wf (measure (\<lambda>(maxRequests, timeWindow, w).
         length (filter (\<lambda>timestamp. now w - timestamp < timeWindow) (requests w))))"
    by simp
next
  fix maxRequests :: nat and timeWindow :: int and w :: world
    and o1 :: "int option" and w1 :: world and waitTime :: int
  assume "(o1, w1) = waitForAvailability_step maxRequests timeWindow w"
    and "o1 = Some waitTime"
  then have step: "waitForAvailability_step maxRequests timeWindow w = (Some waitTime, w1)"
    by simp
  define kept where "kept = filter (\<lambda>timestamp. now w - timestamp < timeWindow) (requests w)"
  from step obtain x xs where k: "kept = x # xs"
    and wt: "waitTime = timeWindow - (now w - x)" "waitTime > 0"
    and w1: "w1 = w\<lparr>requests := kept\<rparr>"
    by (auto simp: waitForAvailability_step_def Let_def kept_def emit_def
          split: if_splits list.splits)
  have "length (filter (\<lambda>timestamp. now (sleep waitTime w1) - timestamp < timeWindow)
          (requests (sleep waitTime w1)))
        = length (filter (\<lambda>timestamp. now w + waitTime - timestamp < timeWindow) xs)"
    using wt by (simp add: sleep_def w1 k)
  also have "\<dots> \<le> length xs" by simp
  also have "\<dots> < length kept" by (simp add: k)
  finally show "((maxRequests, timeWindow, sleep waitTime w1), (maxRequests, timeWindow, w))
      \<in> measure (\<lambda>(maxRequests, timeWindow, w).
         length (filter (\<lambda>timestamp. now w - timestamp < timeWindow) (requests w)))"
    by (simp add: kept_def)
qed

declare waitForAvailability.simps [simp del]

section \<open>RetryHelper\<close>

text \<open>\<^verbatim>\<open>String.prototype.includes\<close>: the second text occurs somewhere in the first.\<close>

fun str_includes :: "string \<Rightarrow> string \<Rightarrow> bool" where
  "str_includes [] sub = (sub = [])"
| "str_includes (c # cs) sub = (take (length sub) (c # cs) = sub \<or> str_includes cs sub)"

text \<open>
  The test \<^verbatim>\<open>error.message?.includes("429") || error.message?.includes("Too Many Requests")\<close>
  on the message of an error object.
\<close>

definition isRateLimitError :: "string option \<Rightarrow> bool" where
  "isRateLimitError msg =
     (case msg of
        None \<Rightarrow> False
      | Some text \<Rightarrow> str_includes text ''429'' \<or> str_includes text ''Too Many Requests'')"

text \<open>Reading \<^verbatim>\<open>.message\<close> of \<^verbatim>\<open>undefined\<close> throws this.\<close>

definition typeError :: Thrown where
  "typeError = Error (Some ''TypeError: Cannot read properties of undefined'')"

text \<open>
  An operation is an asynchronous call: run in a world, it resolves (\<open>Inr\<close>) or rejects
  (\<open>Inl\<close>) and leaves a world. \<open>withRetry_loop\<close> is the \<^verbatim>\<open>for\<close> loop of
  \<^verbatim>\<open>withRetry\<close> from a value of \<^verbatim>\<open>attempt\<close> on; its last branch is the
  \<^verbatim>\<open>throw lastError!\<close> after the loop. \<open>maxRetries\<close> is a count, as at every call
  of the service (3); the jitter is the next value of \<^verbatim>\<open>Math.random()\<close>.
\<close>

function withRetry_loop ::
    "(world \<Rightarrow> (Thrown + 'a) \<times> world) \<Rightarrow> nat \<Rightarrow> real \<Rightarrow> nat \<Rightarrow> Thrown \<Rightarrow> world
       \<Rightarrow> (Thrown + 'a) \<times> world" where
  "withRetry_loop operation maxRetries baseDelay attempt lastError w =
     (if attempt \<le> maxRetries then
        (case operation w of
           (Inr result, w1) \<Rightarrow> (Inr result, w1)
         | (Inl error, w1) \<Rightarrow>
             (if attempt = maxRetries then (Inl error, w1)
              else (case error of
                      Undefined \<Rightarrow> (Inl typeError, w1)
                    | Error msg \<Rightarrow>
                        (if isRateLimitError msg then
                           (case mathRandom w1 of
                              (r, w2) \<Rightarrow>
                                withRetry_loop operation maxRetries baseDelay (attempt + 1) error
                                  (sleep \<lfloor>baseDelay * 2 ^ attempt + r * 1000\<rfloor> w2))
                         else (Inl error, w1)))))
      else (Inl lastError, w))"
  by pat_completeness auto
termination
  by (relation "measure (\<lambda>(operation, maxRetries, baseDelay, attempt, lastError, w).
        maxRetries + 1 - attempt)") auto

declare withRetry_loop.simps [simp del]

definition withRetry ::
    "(world \<Rightarrow> (Thrown + 'a) \<times> world) \<Rightarrow> nat \<Rightarrow> real \<Rightarrow> world \<Rightarrow> (Thrown + 'a) \<times> world" where
  "withRetry operation maxRetries baseDelay w =
     withRetry_loop operation maxRetries baseDelay 0 Undefined w"

section \<open>SolanaService\<close>

text \<open>\<^verbatim>\<open>this.rateLimiter = new RateLimiter(8, 1000)\<close>.\<close>

definition rateLimiter_waitForAvailability :: "world \<Rightarrow> world" where
  "rateLimiter_waitForAvailability w = waitForAvailability 8 1000 w"

text \<open>
  \<^verbatim>\<open>getConnection\<close>: the pool holds the three connections the constructor made, so an
  index outside 0, 1, 2 reads \<^verbatim>\<open>undefined\<close> and gives \<^verbatim>\<open>this.connection\<close>.
\<close>

definition getConnection :: "world \<Rightarrow> Connection \<times> world" where
  "getConnection w =
     (case mathRandom w of
        (r, w1) \<Rightarrow>
          (let index = \<lfloor>r * 3\<rfloor>
           in (if 0 \<le> index \<and> index < 3 then Pool (nat index) else Primary, w1)))"

definition invalidPublicKey :: Thrown where
  "invalidPublicKey = Error (Some ''Invalid public key input'')"

text \<open>A request to the chain node: it is sent, then answered after the node's latency.\<close>

definition getSignaturesForAddress ::
    "chain \<Rightarrow> Connection \<Rightarrow> string \<Rightarrow> int \<Rightarrow> world \<Rightarrow> (Thrown + string list) \<times> world" where
  "getSignaturesForAddress env connection addr limit w =
     (let w1 = emit (Rpc (GetSignaturesForAddress connection addr limit)) w
      in (signaturesResponse env w1 addr limit, sleep (int (latency env w1)) w1))"

definition getParsedTransaction ::
    "chain \<Rightarrow> Connection \<Rightarrow> string
       \<Rightarrow> world \<Rightarrow> (Thrown + ParsedTransactionWithMeta option) \<times> world" where
  "getParsedTransaction env connection sig w =
     (let w1 = emit (Rpc (GetParsedTransaction connection sig)) w
      in (transactionResponse env w1 sig, sleep (int (latency env w1)) w1))"

text \<open>
  The two operations the service passes to \<^verbatim>\<open>withRetry\<close>:
  \<^verbatim>\<open>() => this.getConnection().getSignaturesForAddress(new PublicKey(walletAddress), {limit})\<close>
  and \<^verbatim>\<open>() => this.getConnection().getParsedTransaction(signatureInfo.signature, ...)\<close>.
\<close>

definition fetchSignatures ::
    "chain \<Rightarrow> string \<Rightarrow> int \<Rightarrow> world \<Rightarrow> (Thrown + string list) \<times> world" where
  "fetchSignatures env addr limit w =
     (case getConnection w of
        (connection, w1) \<Rightarrow>
          (if validPublicKey env addr then getSignaturesForAddress env connection addr limit w1
           else (Inl invalidPublicKey, w1)))"

definition fetchTransaction ::
    "chain \<Rightarrow> string \<Rightarrow> world \<Rightarrow> (Thrown + ParsedTransactionWithMeta option) \<times> world" where
  "fetchTransaction env sig w =
     (case getConnection w of (connection, w1) \<Rightarrow> getParsedTransaction env connection sig w1)"

text \<open>The hand-off to storage; what storage does with the record is not the service's.\<close>

definition insertTransaction :: "Transaction \<Rightarrow> world \<Rightarrow> world" where
  "insertTransaction t w = w\<lparr>insertedTransactions := insertedTransactions w @ [t]\<rparr>"

definition insertWallet :: "Wallet \<Rightarrow> world \<Rightarrow> world" where
  "insertWallet x w = w\<lparr>insertedWallets := insertedWallets w @ [x]\<rparr>"

text \<open>\<^verbatim>\<open>processTransaction\<close>: every error of the body is caught and logged.\<close>

definition processTransaction :: "chain \<Rightarrow> string \<Rightarrow> string \<Rightarrow> string \<Rightarrow> world \<Rightarrow> world" where
  "processTransaction env tokenMint sig addr w =
     (let w1 = rateLimiter_waitForAvailability w
      in case withRetry (fetchTransaction env sig) 3 1000 w1 of
           (Inl error, w2) \<Rightarrow> w2
         | (Inr None, w2) \<Rightarrow> w2
         | (Inr (Some tx), w2) \<Rightarrow>
             (case analyzeTransaction tokenMint tx addr of
                None \<Rightarrow> w2
              | Some analysis \<Rightarrow> insertTransaction analysis w2))"

definition handleAccountChange :: "chain \<Rightarrow> string \<Rightarrow> string \<Rightarrow> world \<Rightarrow> world" where
  "handleAccountChange env tokenMint addr w =
     (let w1 = rateLimiter_waitForAvailability w
      in case withRetry (fetchSignatures env addr 5) 3 1000 w1 of
           (Inl error, w2) \<Rightarrow> w2
         | (Inr sigs, w2) \<Rightarrow> fold (\<lambda>sig. processTransaction env tokenMint sig addr) sigs w2)"

text \<open>
  \<^verbatim>\<open>getWalletTransactionHistory\<close>: the loop over the signatures, the body of the
  \<^verbatim>\<open>try\<close>, and the function with its \<^verbatim>\<open>catch\<close>.
\<close>

fun getWalletTransactionHistory_loop ::
    "chain \<Rightarrow> string \<Rightarrow> string \<Rightarrow> string list \<Rightarrow> Transaction list \<Rightarrow> world
       \<Rightarrow> (Thrown + Transaction list) \<times> world" where
  "getWalletTransactionHistory_loop env tokenMint addr [] transactions w = (Inr transactions, w)"
| "getWalletTransactionHistory_loop env tokenMint addr (sig # rest) transactions w =
     (let w1 = rateLimiter_waitForAvailability w
      in case withRetry (fetchTransaction env sig) 3 1000 w1 of
           (Inl error, w2) \<Rightarrow> (Inl error, w2)
         | (Inr None, w2) \<Rightarrow>
             getWalletTransactionHistory_loop env tokenMint addr rest transactions w2
         | (Inr (Some tx), w2) \<Rightarrow>
             (case analyzeTransaction tokenMint tx addr of
                None \<Rightarrow> getWalletTransactionHistory_loop env tokenMint addr rest transactions w2
              | Some analysis \<Rightarrow>
                  getWalletTransactionHistory_loop env tokenMint addr rest
                    (transactions @ [analysis]) w2))"

definition getWalletTransactionHistory_try ::
    "chain \<Rightarrow> string \<Rightarrow> string \<Rightarrow> int \<Rightarrow> world \<Rightarrow> (Thrown + Transaction list) \<times> world" where
  "getWalletTransactionHistory_try env tokenMint addr limit w =
     (let w1 = rateLimiter_waitForAvailability w
      in case withRetry (fetchSignatures env addr limit) 3 1000 w1 of
           (Inl error, w2) \<Rightarrow> (Inl error, w2)
         | (Inr sigs, w2) \<Rightarrow> getWalletTransactionHistory_loop env tokenMint addr sigs [] w2)"

definition getWalletTransactionHistory ::
    "chain \<Rightarrow> string \<Rightarrow> string \<Rightarrow> int \<Rightarrow> world \<Rightarrow> (Thrown + Transaction list) \<times> world" where
  "getWalletTransactionHistory env tokenMint addr limit w =
     (case getWalletTransactionHistory_try env tokenMint addr limit w of
        (Inl error, w1) \<Rightarrow> (Inr [], w1)
      | (Inr transactions, w1) \<Rightarrow> (Inr transactions, w1))"

text \<open>
  \<^verbatim>\<open>xs.slice(0, stop)\<close> for an integer \<open>stop\<close>: a negative one counts from the end
  of the list.
\<close>

definition slice0 :: "'a list \<Rightarrow> int \<Rightarrow> 'a list" where
  "slice0 xs stop =
     take (nat (if stop < 0 then max (int (length xs) + stop) 0 else stop)) xs"

text \<open>The wallet made of an entry of the balance API; \<open>t\<close> is \<^verbatim>\<open>new Date()\<close>.\<close>

definition toWallet :: "int \<Rightarrow> BalanceUpdate \<Rightarrow> Wallet" where
  "toWallet t entry =
     \<lparr> address = accountAddress entry,
       tokenBalance = toNumber (holding entry),
       solBalance = 0,
       firstSeen = t,
       lastActivity = t,
       transactionCount = 0,
       totalVolume = 0 \<rparr>"

text \<open>
  \<^verbatim>\<open>getTopTokenHolders\<close>. Nothing catches a failure of the query, so the function
  rejects with it. The refresh time is the \<^verbatim>\<open>now\<close> read on entry.
\<close>

definition getTopTokenHolders :: "chain \<Rightarrow> int \<Rightarrow> world \<Rightarrow> (Thrown + Wallet list) \<times> world" where
  "getTopTokenHolders env limit w =
     (let t = now w
      in if topHoldersCache w \<noteq> [] \<and> t - lastTopHolderFetch w < 30000
         then (Inr (slice0 (topHoldersCache w) limit), w)
         else
           (let w1 = emit HoldersQuery w;
                w2 = sleep (int (latency env w1)) w1
            in case holdersResponse env w1 of
                 Inl error \<Rightarrow> (Inl error, w2)
               | Inr result \<Rightarrow>
                   (let data = orEmpty result;
                        wallets = map (toWallet (now w2)) data;
                        w3 = fold insertWallet wallets w2;
                        w4 = w3\<lparr>topHoldersCache := wallets, lastTopHolderFetch := t\<rparr>
                    in (Inr (slice0 wallets 60), w4))))"

text \<open>
  \<^verbatim>\<open>connection.onAccountChange\<close> of the chain client: the listener is open from now on
  and gets the connection's next id.
\<close>

definition onAccountChange :: "Connection \<Rightarrow> string \<Rightarrow> world \<Rightarrow> nat \<times> world" where
  "onAccountChange connection addr w =
     (let subscriptionId = nextListenerId w connection
      in (subscriptionId,
          emit (ListenerOpened connection subscriptionId addr)
            (w\<lparr>listeners := listeners w @ [(connection, subscriptionId, addr)],
               nextListenerId := (nextListenerId w)(connection := subscriptionId + 1)\<rparr>)))"

text \<open>
  The body of the inner loop of \<^verbatim>\<open>subscribeToWalletTransactions\<close> for one address;
  an invalid address makes \<^verbatim>\<open>new PublicKey\<close> throw, which is caught and logged.
\<close>

definition subscribeWallet :: "chain \<Rightarrow> string \<Rightarrow> world \<Rightarrow> world" where
  "subscribeWallet env addr w =
     (let w1 = rateLimiter_waitForAvailability w
      in if validPublicKey env addr then
           (case getConnection w1 of
              (connection, w2) \<Rightarrow>
                (case onAccountChange connection addr w2 of
                   (subscriptionId, w3) \<Rightarrow>
                     w3\<lparr>subscriptions :=
                          AList.update addr (subscriptionId, connection) (subscriptions w3)\<rparr>))
         else w1)"

text \<open>The outer loop, from index \<open>i\<close> on, with \<^verbatim>\<open>batchSize = 5\<close>.\<close>

function subscribeToWalletTransactions_loop ::
    "chain \<Rightarrow> string list \<Rightarrow> nat \<Rightarrow> world \<Rightarrow> world" where
  "subscribeToWalletTransactions_loop env walletAddresses i w =
     (if i < length walletAddresses then
        (let batch = take 5 (drop i walletAddresses);
             w1 = fold (subscribeWallet env) batch w;
             w2 = (if i + 5 < length walletAddresses then sleep 200 w1 else w1)
         in subscribeToWalletTransactions_loop env walletAddresses (i + 5) w2)
      else w)"
  by pat_completeness auto
termination
  by (relation "measure (\<lambda>(env, walletAddresses, i, w). length walletAddresses - i)") auto

declare subscribeToWalletTransactions_loop.simps [simp del]

definition subscribeToWalletTransactions :: "chain \<Rightarrow> string list \<Rightarrow> world \<Rightarrow> world" where
  "subscribeToWalletTransactions env walletAddresses w =
     subscribeToWalletTransactions_loop env walletAddresses 0 w"

definition removeAccountChangeListener :: "Connection \<Rightarrow> nat \<Rightarrow> world \<Rightarrow> world" where
  "removeAccountChangeListener connection subscriptionId w =
     emit (ListenerClosed connection subscriptionId)
       (w\<lparr>listeners :=
            filter (\<lambda>(c, i, a). \<not> (c = connection \<and> i = subscriptionId)) (listeners w)\<rparr>)"

definition unsubscribeAll :: "world \<Rightarrow> world" where
  "unsubscribeAll w =
     (fold (\<lambda>(addr, subscriptionId, connection).
              removeAccountChangeListener connection subscriptionId) (subscriptions w) w)
       \<lparr>subscriptions := []\<rparr>"

section \<open>Callers of the rate limiter, interleaved\<close>

text \<open>
  JavaScript runs one caller at a time and switches only where a caller is suspended.
  Between two suspensions a caller of \<^verbatim>\<open>waitForAvailability\<close> runs one
  \<open>waitForAvailability_step\<close>, so what any number of concurrent callers do to the
  limiter is a sequence of such steps, each by some caller that has just arrived or has
  just woken up, with time passing in between.
\<close>

datatype LimiterAction = Elapse nat | Attempt

fun limiterRun :: "nat \<Rightarrow> int \<Rightarrow> LimiterAction list \<Rightarrow> world \<Rightarrow> world" where
  "limiterRun maxRequests timeWindow [] w = w"
| "limiterRun maxRequests timeWindow (Elapse d # rest) w =
     limiterRun maxRequests timeWindow rest (sleep (int d) w)"
| "limiterRun maxRequests timeWindow (Attempt # rest) w =
     limiterRun maxRequests timeWindow rest (snd (waitForAvailability_step maxRequests timeWindow w))"

text \<open>The times of the admissions of a trace, oldest first.\<close>

fun admissions :: "Event list \<Rightarrow> int list" where
  "admissions [] = []"
| "admissions (Admitted t # rest) = t # admissions rest"
| "admissions (e # rest) = admissions rest"

section \<open>Sample inputs\<close>

text \<open>A transaction in which wallet \<open>W\<close> holds 100 of the monitored mint before and 140 after.\<close>

definition sampleBalance :: "string \<Rightarrow> real \<Rightarrow> TokenBalance" where
  "sampleBalance who x =
     \<lparr> owner = Some who, mint = ''MINT'', uiTokenAmount = \<lparr> uiAmount = Some x \<rparr> \<rparr>"

definition sampleMeta :: "real \<Rightarrow> real \<Rightarrow> ParsedTransactionMeta" where
  "sampleMeta pre post =
     \<lparr> fee = 5000,
       preTokenBalances = Some [sampleBalance ''other'' 7, sampleBalance ''W'' pre],
       postTokenBalances = Some [sampleBalance ''W'' post, sampleBalance ''other'' 9] \<rparr>"

definition sampleBody :: ParsedTransaction where
  "sampleBody =
     \<lparr> signatures = [''sig1''],
       accountKeys = [''W'', ''675kPX9MHTjS2zt1qfr1NYHuzeLXfQM9H24wFSUt1Mp8'',
                      ''JUP6LkbZbjS1jKKwapdHNy74zcZ3tLUZoi5QNyVTaV4''] \<rparr>"

definition sampleTransaction :: "real \<Rightarrow> real \<Rightarrow> ParsedTransactionWithMeta" where
  "sampleTransaction pre post =
     \<lparr> blockTime = Some 1700000000,
       meta = Some (sampleMeta pre post),
       transaction = Some sampleBody \<rparr>"

text \<open>
  The service right after its construction, at clock \<open>t\<close>, with the values
  \<^verbatim>\<open>Math.random()\<close> is going to return.
\<close>

definition freshWorld :: "int \<Rightarrow> real list \<Rightarrow> world" where
  "freshWorld t randoms =
     \<lparr> now = t, rng = randoms, trace = [], requests = [], subscriptions = [],
       topHoldersCache = [], lastTopHolderFetch = 0, listeners = [],
       nextListenerId = (\<lambda>connection. 0), insertedWallets = [], insertedTransactions = [] \<rparr>"

text \<open>
  A transaction in which \<open>W\<close> has no entry before and an entry with a \<^verbatim>\<open>null\<close> amount
  after.
\<close>

definition sampleArrival :: ParsedTransactionWithMeta where
  "sampleArrival =
     \<lparr> blockTime = Some 1700000000,
       meta = Some \<lparr> fee = 5000,
                     preTokenBalances = None,
                     postTokenBalances =
                       Some [\<lparr> owner = Some ''W'', mint = ''MINT'',
                               uiTokenAmount = \<lparr> uiAmount = None \<rparr> \<rparr>] \<rparr>,
       transaction = Some sampleBody \<rparr>"

section \<open>Reading a run of \<open>withRetry\<close>\<close>

text \<open>What the \<^verbatim>\<open>catch\<close> block of \<^verbatim>\<open>withRetry\<close> takes for a rate-limit rejection.\<close>

definition rateLimited :: "Thrown \<Rightarrow> bool" where
  "rateLimited error = (case error of Undefined \<Rightarrow> False | Error msg \<Rightarrow> isRateLimitError msg)"

text \<open>
  The world in which attempt number \<open>k\<close> (counted from 0) starts when each earlier
  attempt was followed by its back-off: the world the earlier attempt left, one value of
  \<^verbatim>\<open>Math.random()\<close> drawn, and the delay slept.
\<close>

fun attemptWorld ::
    "(world \<Rightarrow> (Thrown + 'a) \<times> world) \<Rightarrow> real \<Rightarrow> nat \<Rightarrow> world \<Rightarrow> world" where
  "attemptWorld operation baseDelay 0 w = w"
| "attemptWorld operation baseDelay (Suc k) w =
     (case mathRandom (snd (operation (attemptWorld operation baseDelay k w))) of
        (r, w2) \<Rightarrow> sleep \<lfloor>baseDelay * 2 ^ k + r * 1000\<rfloor> w2)"

text \<open>
  A chain node that rejects the first \<open>n\<close> requests with a rate-limit message and then
  answers every transaction request with the transaction \<open>tx\<close>; and one whose
  rejections carry another message.
\<close>

fun rpcCount :: "Event list \<Rightarrow> nat" where
  "rpcCount [] = 0"
| "rpcCount (Rpc request # rest) = Suc (rpcCount rest)"
| "rpcCount (e # rest) = rpcCount rest"

definition throttlingChain :: "nat \<Rightarrow> ParsedTransactionWithMeta \<Rightarrow> chain" where
  "throttlingChain n tx =
     \<lparr> validPublicKey = (\<lambda>addr. True),
       signaturesResponse =
         (\<lambda>w addr limit.
            if rpcCount (trace w) \<le> n then Inl (Error (Some ''429 Too Many Requests''))
            else Inr [''sig1'']),
       transactionResponse =
         (\<lambda>w sig.
            if rpcCount (trace w) \<le> n then Inl (Error (Some ''429 Too Many Requests''))
            else Inr (Some tx)),
       holdersResponse = (\<lambda>w. Inr None),
       latency = (\<lambda>w. 0) \<rparr>"

definition failingChain :: chain where
  "failingChain =
     \<lparr> validPublicKey = (\<lambda>addr. True),
       signaturesResponse = (\<lambda>w addr limit. Inl (Error (Some ''fetch failed''))),
       transactionResponse = (\<lambda>w sig. Inl (Error (Some ''fetch failed''))),
       holdersResponse = (\<lambda>w. Inl (Error (Some ''fetch failed''))),
       latency = (\<lambda>w. 0) \<rparr>"

section \<open>Callers of \<open>getTopTokenHolders\<close>\<close>



text \<open>
  \<^verbatim>\<open>getTopTokenHolders\<close> is suspended once, while the query is under way. Up to there it
  either answers from the cache (\<open>Inl\<close>) or sends the query, keeping the \<^verbatim>\<open>now\<close> it
  read and what the API is going to answer (\<open>Inr\<close>); from there on it stores and
  returns the answer. Another caller may run between the two parts.
\<close>

definition getTopTokenHolders_request ::
    "chain \<Rightarrow> int \<Rightarrow> world
       \<Rightarrow> (Wallet list + int \<times> (Thrown + BalanceUpdate list option)) \<times> world" where
  "getTopTokenHolders_request env limit w =
     (let t = now w
      in if topHoldersCache w \<noteq> [] \<and> t - lastTopHolderFetch w < 30000
         then (Inl (slice0 (topHoldersCache w) limit), w)
         else (let w1 = emit HoldersQuery w in (Inr (t, holdersResponse env w1), w1)))"

definition getTopTokenHolders_response ::
    "int \<times> (Thrown + BalanceUpdate list option) \<Rightarrow> world \<Rightarrow> (Thrown + Wallet list) \<times> world"
    where
  "getTopTokenHolders_response pending w2 =
     (case pending of
        (t, Inl error) \<Rightarrow> (Inl error, w2)
      | (t, Inr result) \<Rightarrow>
          (let data = orEmpty result;
               wallets = map (toWallet (now w2)) data;
               w3 = fold insertWallet wallets w2;
               w4 = w3\<lparr>topHoldersCache := wallets, lastTopHolderFetch := t\<rparr>
           in (Inr (slice0 wallets 60), w4)))"

text \<open>
  A balance API that answers every query with the given entries, beside a chain client
  that takes every text but the empty one for a public key.
\<close>

definition holdersChain :: "BalanceUpdate list \<Rightarrow> chain" where
  "holdersChain entries =
     \<lparr> validPublicKey = (\<lambda>addr. addr \<noteq> []),
       signaturesResponse = (\<lambda>w addr limit. Inr []),
       transactionResponse = (\<lambda>w sig. Inr None),
       holdersResponse = (\<lambda>w. Inr (Some entries)),
       latency = (\<lambda>w. 0) \<rparr>"

definition sampleHolders :: "BalanceUpdate list" where
  "sampleHolders =
     [\<lparr> accountAddress = ''A'', holding = Some 900 \<rparr>,
      \<lparr> accountAddress = ''B'', holding = Some 500 \<rparr>]"


section \<open>Reading a run of \<open>getWalletTransactionHistory\<close>\<close>

text \<open>
  What the loop of \<^verbatim>\<open>getWalletTransactionHistory\<close> fetches for a list of signatures:
  after an admission each, the answers of the chain node in the order of the signatures
  (\<open>None\<close> for a transaction the node does not have), or the first error.
\<close>

fun fetchTransactions ::
    "chain \<Rightarrow> string list \<Rightarrow> world \<Rightarrow> (Thrown + ParsedTransactionWithMeta option list) \<times> world"
    where
  "fetchTransactions env [] w = (Inr [], w)"
| "fetchTransactions env (sig # rest) w =
     (case withRetry (fetchTransaction env sig) 3 1000 (rateLimiter_waitForAvailability w) of
        (Inl error, w2) \<Rightarrow> (Inl error, w2)
      | (Inr tx, w2) \<Rightarrow>
          (case fetchTransactions env rest w2 of
             (Inl error, w3) \<Rightarrow> (Inl error, w3)
           | (Inr txs, w3) \<Rightarrow> (Inr (tx # txs), w3)))"

text \<open>The classifications of the fetched transactions that are present and not \<^verbatim>\<open>null\<close>.\<close>

definition classified ::
    "string \<Rightarrow> string \<Rightarrow> ParsedTransactionWithMeta option list \<Rightarrow> Transaction list" where
  "classified tokenMint addr txs =
     List.map_filter (\<lambda>fetched. Option.bind fetched (\<lambda>tx. analyzeTransaction tokenMint tx addr))
       txs"

section \<open>Reading a trace\<close>

text \<open>
  The reading of a trace under which every request to the chain node is gated by the
  rate limiter: each request is preceded by an admission made after the request before
  it. \<open>pending\<close> tells whether such an admission is waiting to be used.
\<close>

fun everyRequestAdmitted :: "bool \<Rightarrow> Event list \<Rightarrow> bool" where
  "everyRequestAdmitted pending [] = True"
| "everyRequestAdmitted pending (Admitted t # rest) = everyRequestAdmitted True rest"
| "everyRequestAdmitted pending (Rpc request # rest) =
     (pending \<and> everyRequestAdmitted False rest)"
| "everyRequestAdmitted pending (e # rest) = everyRequestAdmitted pending rest"

section \<open>Invariants used in the proofs\<close>

text \<open>
  What every run of the limiter keeps: at most \<open>maxRequests\<close> recorded timestamps; no
  admission lies in the future; the recorded timestamps and the admissions of the trace
  agree inside every window that ends now or later; and no window holds more than
  \<open>maxRequests\<close> admissions.
\<close>

definition limiter_inv :: "nat \<Rightarrow> int \<Rightarrow> world \<Rightarrow> bool" where
  "limiter_inv maxRequests timeWindow w \<longleftrightarrow>
     length (requests w) \<le> maxRequests
     \<and> (\<forall>a \<in> set (admissions (trace w)). a \<le> now w)
     \<and> (\<forall>t \<ge> now w. filter (\<lambda>a. t - a < timeWindow) (requests w)
                       = filter (\<lambda>a. t - a < timeWindow) (admissions (trace w)))
     \<and> (\<forall>t. length (filter (\<lambda>a. t - timeWindow < a \<and> a \<le> t) (admissions (trace w)))
              \<le> maxRequests)"

section \<open>Classification: direction, amount and protocol\<close>

lemma analyzeTransaction_present:
  "meta tx = Some m \<Longrightarrow> transaction tx = Some t \<Longrightarrow>
   analyzeTransaction tokenMint tx addr =
     (if balanceDelta tokenMint m addr = 0 then None
      else Some \<lparr> signature = (case signatures t of [] \<Rightarrow> None | s # _ \<Rightarrow> Some s),
                  timestamp = toNumber (blockTime tx) * 1000,
                  walletAddress = addr,
                  txType = (if balanceDelta tokenMint m addr > 0 then buy else sell),
                  amount = \<bar>balanceDelta tokenMint m addr\<bar>,
                  protocol = detectProtocol (accountKeys t),
                  priceImpact = 0,
                  txFee = fee m / 1000000000,
                  tokenPrice = Some 0 \<rparr>)"
  by (simp add: analyzeTransaction_def balanceDelta_def Let_def)


lemma detectProtocol_loop_find:
  "detectProtocol_loop table keys =
     (case find (\<lambda>(name, ids). set keys \<inter> set ids \<noteq> {}) table of
        None \<Rightarrow> ''unknown''
      | Some (name, ids) \<Rightarrow> name)"
proof (induction table)
  case Nil
  show ?case by simp
next
  case (Cons entry rest)
  obtain name ids where entry: "entry = (name, ids)" by (cases entry)
  have "list_ex (List.member ids) keys \<longleftrightarrow> set keys \<inter> set ids \<noteq> {}"
    by (auto simp: list_ex_iff)
  with Cons entry show ?case by simp
qed

text \<open>
  C1. When the transaction has its metadata and body and the balance of the wallet
  after it (\<open>post\<close>) differs from the one before it (\<open>pre\<close>), \<^verbatim>\<open>analyzeTransaction\<close>
  returns a record; its type is \<open>buy\<close> exactly when \<open>post - pre\<close> is positive and
  \<open>sell\<close> otherwise, and its amount is the absolute value of \<open>post - pre\<close>.
\<close>

theorem analyzeTransaction_direction_amount:
  assumes "meta tx = Some m" and "transaction tx = Some t"
    and "pre = toNumber (findBalance tokenMint (orEmpty (preTokenBalances m)) addr)"
    and "post = toNumber (findBalance tokenMint (orEmpty (postTokenBalances m)) addr)"
    and "post - pre \<noteq> 0"
  shows "\<exists>r. analyzeTransaction tokenMint tx addr = Some r
           \<and> (txType r = buy \<longleftrightarrow> post - pre > 0)
           \<and> txType r = (if post - pre > 0 then buy else sell)
           \<and> amount r = \<bar>post - pre\<bar>"
proof -
  have delta: "balanceDelta tokenMint m addr = post - pre"
    using assms(3,4) by (simp add: balanceDelta_def calculateTokenBalanceChange_def)
  show ?thesis
    using assms(5) by (simp add: analyzeTransaction_present [OF assms(1,2)] delta)
qed

text \<open>The scenario of the specification: 100 before, 140 after, so a buy of 40.\<close>

theorem analyzeTransaction_direction_amount_witness:
  "\<exists>r. analyzeTransaction ''MINT'' (sampleTransaction 100 140) ''W'' = Some r
       \<and> txType r = buy \<and> amount r = 40"
  using analyzeTransaction_direction_amount
    [of "sampleTransaction 100 140" "sampleMeta 100 140" sampleBody 100 "''MINT''" "''W''" 140]
  by (simp add: sampleTransaction_def sampleMeta_def sampleBalance_def findBalance_def
        toNumber_def orEmpty_def)

text \<open>
  C3. \<^verbatim>\<open>detectProtocol\<close> is a function of the account keys with a value among
  jupiter, raydium, orca and unknown: the name of the first entry of the table, in the
  order jupiter, raydium, orca, one of whose identifiers is among the account keys, and
  unknown when there is no such entry.
\<close>

theorem detectProtocol_first_match:
  "map fst protocols = [''jupiter'', ''raydium'', ''orca'']
   \<and> detectProtocol keys \<in> {''jupiter'', ''raydium'', ''orca'', ''unknown''}
   \<and> detectProtocol keys =
       (case find (\<lambda>(name, ids). set keys \<inter> set ids \<noteq> {}) protocols of
          None \<Rightarrow> ''unknown''
        | Some (name, ids) \<Rightarrow> name)"
proof -
  have names: "map fst protocols = [''jupiter'', ''raydium'', ''orca'']"
    by (simp add: protocols_def)
  have found: "detectProtocol keys =
       (case find (\<lambda>(name, ids). set keys \<inter> set ids \<noteq> {}) protocols of
          None \<Rightarrow> ''unknown''
        | Some (name, ids) \<Rightarrow> name)"
    by (simp add: detectProtocol_def detectProtocol_loop_find)
  have "detectProtocol keys \<in> insert ''unknown'' (set (map fst protocols))"
  proof (cases "find (\<lambda>(name, ids). set keys \<inter> set ids \<noteq> {}) protocols")
    case None
    then show ?thesis by (simp add: found)
  next
    case (Some entry)
    then obtain i where "i < length protocols" and "protocols ! i = entry"
      by (auto simp: find_Some_iff)
    then have "entry \<in> set protocols"
      using nth_mem by fastforce
    then have "fst entry \<in> set (map fst protocols)"
      by simp
    moreover have "detectProtocol keys = fst entry"
      using Some by (simp add: found split: prod.splits)
    ultimately show ?thesis by simp
  qed
  then have "detectProtocol keys \<in> {''jupiter'', ''raydium'', ''orca'', ''unknown''}"
    unfolding names by auto
  with names found show ?thesis by blast
qed

text \<open>Keys of raydium and jupiter, raydium's first: the table's order decides, jupiter.\<close>

theorem detectProtocol_first_match_witness:
  "detectProtocol [''W'', ''675kPX9MHTjS2zt1qfr1NYHuzeLXfQM9H24wFSUt1Mp8'',
                   ''JUP6LkbZbjS1jKKwapdHNy74zcZ3tLUZoi5QNyVTaV4''] = ''jupiter''
   \<and> detectProtocol [''W''] = ''unknown''"
  using detectProtocol_first_match
    [of "[''W'', ''675kPX9MHTjS2zt1qfr1NYHuzeLXfQM9H24wFSUt1Mp8'',
          ''JUP6LkbZbjS1jKKwapdHNy74zcZ3tLUZoi5QNyVTaV4'']"]
    detectProtocol_first_match [of "[''W'']"]
  by (simp add: protocols_def)


section \<open>The rate limiter's window\<close>

lemma step_cases:
  assumes "1 \<le> maxRequests"
  shows "waitForAvailability_step maxRequests timeWindow w =
     (let kept = filter (\<lambda>timestamp. now w - timestamp < timeWindow) (requests w)
      in if length kept \<ge> maxRequests
         then (Some (timeWindow - (now w - hd kept)), w\<lparr>requests := kept\<rparr>)
         else (None, emit (Admitted (now w)) (w\<lparr>requests := kept @ [now w]\<rparr>)))"
proof -
  define kept where "kept = filter (\<lambda>timestamp. now w - timestamp < timeWindow) (requests w)"
  show ?thesis
  proof (cases kept)
    case Nil
    with assms show ?thesis
      by (simp add: waitForAvailability_step_def Let_def kept_def [symmetric])
  next
    case (Cons x xs)
    then have "x \<in> set kept" by simp
    then have "now w - x < timeWindow" by (simp add: kept_def)
    with Cons show ?thesis
      by (simp add: waitForAvailability_step_def Let_def kept_def [symmetric])
  qed
qed

lemma admissions_append: "admissions (xs @ ys) = admissions xs @ admissions ys"
  by (induction xs rule: admissions.induct) simp_all

lemma filter_narrow:
  assumes "\<And>x. P x \<Longrightarrow> Q x"
  shows "filter P (filter Q xs) = filter P xs"
  using assms by (induction xs) auto

lemma limiter_inv_sleep:
  assumes "limiter_inv maxRequests timeWindow w"
  shows "limiter_inv maxRequests timeWindow (sleep d w)"
proof -
  have later: "now w \<le> now (sleep d w)" and same: "requests (sleep d w) = requests w"
    "trace (sleep d w) = trace w"
    by (simp_all add: sleep_def)
  from assms have a: "length (requests w) \<le> maxRequests"
    and b: "\<forall>a \<in> set (admissions (trace w)). a \<le> now w"
    and c: "\<forall>t \<ge> now w. filter (\<lambda>a. t - a < timeWindow) (requests w)
                       = filter (\<lambda>a. t - a < timeWindow) (admissions (trace w))"
    and d: "\<forall>t. length (filter (\<lambda>a. t - timeWindow < a \<and> a \<le> t) (admissions (trace w)))
              \<le> maxRequests"
    unfolding limiter_inv_def by blast+
  have b': "\<forall>a \<in> set (admissions (trace w)). a \<le> now (sleep d w)"
    using b later by fastforce
  have c': "\<forall>t \<ge> now (sleep d w). filter (\<lambda>a. t - a < timeWindow) (requests w)
                       = filter (\<lambda>a. t - a < timeWindow) (admissions (trace w))"
    using c later by fastforce
  show ?thesis
    unfolding limiter_inv_def same using a b' c' d by blast
qed

lemma limiter_inv_step:
  assumes inv: "limiter_inv maxRequests timeWindow w"
    and R: "1 \<le> maxRequests" and W: "0 < timeWindow"
  shows "limiter_inv maxRequests timeWindow (snd (waitForAvailability_step maxRequests timeWindow w))"
proof -
  define kept where "kept = filter (\<lambda>timestamp. now w - timestamp < timeWindow) (requests w)"
  define adm where "adm = admissions (trace w)"
  from inv have len: "length (requests w) \<le> maxRequests"
    and past: "\<And>a. a \<in> set adm \<Longrightarrow> a \<le> now w"
    and same: "\<And>t. now w \<le> t \<Longrightarrow>
          filter (\<lambda>a. t - a < timeWindow) (requests w) = filter (\<lambda>a. t - a < timeWindow) adm"
    and win: "\<And>t. length (filter (\<lambda>a. t - timeWindow < a \<and> a \<le> t) adm) \<le> maxRequests"
    unfolding limiter_inv_def adm_def by blast+
  have kept_same: "filter (\<lambda>a. t - a < timeWindow) kept = filter (\<lambda>a. t - a < timeWindow) adm"
    if "now w \<le> t" for t
  proof -
    have "filter (\<lambda>a. t - a < timeWindow) kept = filter (\<lambda>a. t - a < timeWindow) (requests w)"
      unfolding kept_def using that by (intro filter_narrow) linarith
    then show ?thesis by (simp add: same [OF that])
  qed
  have kept_len: "length kept \<le> maxRequests"
    using len length_filter_le [of "\<lambda>timestamp. now w - timestamp < timeWindow" "requests w"]
    unfolding kept_def by linarith
  show ?thesis
  proof (cases "length kept \<ge> maxRequests")
    case True
    then have "snd (waitForAvailability_step maxRequests timeWindow w) = w\<lparr>requests := kept\<rparr>"
      by (simp add: step_cases [OF R] Let_def kept_def)
    moreover have "\<forall>a \<in> set adm. a \<le> now w"
      using past by blast
    moreover have "\<forall>t \<ge> now w. filter (\<lambda>a. t - a < timeWindow) kept
                       = filter (\<lambda>a. t - a < timeWindow) adm"
      using kept_same by blast
    moreover have "\<forall>t. length (filter (\<lambda>a. t - timeWindow < a \<and> a \<le> t) adm) \<le> maxRequests"
      using win by blast
    ultimately show ?thesis
      using kept_len unfolding limiter_inv_def adm_def by simp
  next
    case False
    then have eq: "snd (waitForAvailability_step maxRequests timeWindow w)
        = emit (Admitted (now w)) (w\<lparr>requests := kept @ [now w]\<rparr>)"
      by (simp add: step_cases [OF R] Let_def kept_def)
    have window: "length (filter (\<lambda>a. t - timeWindow < a \<and> a \<le> t) (adm @ [now w])) \<le> maxRequests"
      for t
    proof (cases "t - timeWindow < now w \<and> now w \<le> t")
      case inside: True
      have "a \<le> t" if "a \<in> set adm" for a
        using past [OF that] inside by linarith
      then have "filter (\<lambda>a. t - timeWindow < a \<and> a \<le> t) adm = filter (\<lambda>a. t - a < timeWindow) adm"
        by (intro filter_cong) auto
      also have "\<dots> = filter (\<lambda>a. t - a < timeWindow) kept"
        using kept_same inside by simp
      finally have "length (filter (\<lambda>a. t - timeWindow < a \<and> a \<le> t) adm) \<le> length kept"
        by simp
      with False inside show ?thesis by simp
    next
      case False
      then show ?thesis using win [of t] by auto
    qed
    have c1: "length (kept @ [now w]) \<le> maxRequests"
      using False by simp
    have c2: "\<forall>a \<in> set (adm @ [now w]). a \<le> now w"
      using past by auto
    have c3: "\<forall>t \<ge> now w. filter (\<lambda>a. t - a < timeWindow) (kept @ [now w])
                       = filter (\<lambda>a. t - a < timeWindow) (adm @ [now w])"
      using kept_same by simp
    show ?thesis
      unfolding eq limiter_inv_def
      using c1 c2 c3 window
      by (simp add: emit_def admissions_append adm_def [symmetric])
  qed
qed

lemma limiter_inv_run:
  assumes "limiter_inv maxRequests timeWindow w" and "1 \<le> maxRequests" and "0 < timeWindow"
  shows "limiter_inv maxRequests timeWindow (limiterRun maxRequests timeWindow acts w)"
  using assms
proof (induction acts arbitrary: w)
  case Nil
  then show ?case by simp
next
  case (Cons act acts)
  then show ?case
    by (cases act) (simp_all add: limiter_inv_sleep limiter_inv_step)
qed

lemma limiterRun_append:
  "limiterRun maxRequests timeWindow (xs @ ys) w
     = limiterRun maxRequests timeWindow ys (limiterRun maxRequests timeWindow xs w)"
proof (induction xs arbitrary: w)
  case Nil
  show ?case by simp
next
  case (Cons act xs)
  then show ?case by (cases act) simp_all
qed

lemma waitForAvailability_as_run:
  "\<exists>acts. waitForAvailability maxRequests timeWindow w = limiterRun maxRequests timeWindow acts w"
proof (induction maxRequests timeWindow w rule: waitForAvailability.induct)
  case (1 maxRequests timeWindow w)
  obtain r w1 where step: "waitForAvailability_step maxRequests timeWindow w = (r, w1)"
    by (cases "waitForAvailability_step maxRequests timeWindow w")
  show ?case
  proof (cases r)
    case None
    have "waitForAvailability maxRequests timeWindow w = w1"
      by (subst waitForAvailability.simps) (simp add: step None)
    moreover have "limiterRun maxRequests timeWindow [Attempt] w = w1"
      by (simp add: step)
    ultimately show ?thesis by metis
  next
    case (Some waitTime)
    from "1.IH" [OF step [symmetric] Some] obtain acts where
      rest: "waitForAvailability maxRequests timeWindow (sleep waitTime w1)
         = limiterRun maxRequests timeWindow acts (sleep waitTime w1)"
      by blast
    have same: "sleep (int (nat waitTime)) w1 = sleep waitTime w1"
      by (simp add: sleep_def max_def)
    have "waitForAvailability maxRequests timeWindow w
        = waitForAvailability maxRequests timeWindow (sleep waitTime w1)"
      by (subst waitForAvailability.simps) (simp add: step Some)
    moreover have "limiterRun maxRequests timeWindow (Attempt # Elapse (nat waitTime) # acts) w
        = limiterRun maxRequests timeWindow acts (sleep waitTime w1)"
      by (simp only: limiterRun.simps step snd_conv same)
    ultimately show ?thesis using rest by metis
  qed
qed

lemma limiter_inv_fresh:
  assumes "requests w = []" and "trace w = []"
  shows "limiter_inv maxRequests timeWindow w"
  using assms by (simp add: limiter_inv_def)

text \<open>
  C5. Start from a limiter with no recorded request and let any number of callers run
  their steps in any order, with any amount of time passing between steps. In every
  state \<open>w\<close> this reaches, and in the state \<open>w'\<close> in which a further call of
  \<^verbatim>\<open>waitForAvailability\<close> completes, the recorded timestamps within the last
  \<open>timeWindow\<close> milliseconds number at most \<open>maxRequests\<close>, and so do the admissions
  made within any \<open>timeWindow\<close> consecutive milliseconds.
\<close>

theorem rateLimiter_sliding_window:
  assumes "requests w0 = []" and "trace w0 = []"
    and "1 \<le> maxRequests" and "0 < timeWindow"
    and "w = limiterRun maxRequests timeWindow acts w0"
    and "w' = waitForAvailability maxRequests timeWindow w"
  shows "length (filter (\<lambda>timestamp. now w - timestamp < timeWindow) (requests w)) \<le> maxRequests
       \<and> (\<forall>t. length (filter (\<lambda>a. t - timeWindow < a \<and> a \<le> t) (admissions (trace w)))
               \<le> maxRequests)
       \<and> length (filter (\<lambda>timestamp. now w' - timestamp < timeWindow) (requests w'))
           \<le> maxRequests
       \<and> (\<forall>t. length (filter (\<lambda>a. t - timeWindow < a \<and> a \<le> t) (admissions (trace w')))
               \<le> maxRequests)"
proof -
  have inv: "limiter_inv maxRequests timeWindow w"
    unfolding assms(5)
    by (rule limiter_inv_run [OF limiter_inv_fresh [OF assms(1,2)] assms(3,4)])
  obtain more where "w' = limiterRun maxRequests timeWindow more w"
    using waitForAvailability_as_run assms(6) by blast
  then have inv': "limiter_inv maxRequests timeWindow w'"
    using limiter_inv_run [OF inv assms(3,4)] by simp
  have bound: "length (filter (\<lambda>timestamp. now v - timestamp < timeWindow) (requests v))
                 \<le> maxRequests"
    if "limiter_inv maxRequests timeWindow v" for v
    using that length_filter_le [of "\<lambda>timestamp. now v - timestamp < timeWindow" "requests v"]
    unfolding limiter_inv_def by linarith
  show ?thesis
    using bound [OF inv] bound [OF inv'] inv inv' unfolding limiter_inv_def by blast
qed

text \<open>
  Ten callers arrive within the same millisecond: eight are admitted and two wait; one
  second later one of them is admitted.
\<close>

theorem rateLimiter_sliding_window_witness:
  "admissions (trace (limiterRun 8 1000
       [Attempt, Attempt, Attempt, Attempt, Attempt, Attempt, Attempt, Attempt, Attempt,
        Attempt, Elapse 1000, Attempt] (freshWorld 5 [])))
     = [5, 5, 5, 5, 5, 5, 5, 5, 1005]
   \<and> (\<forall>t. length (filter (\<lambda>a. t - 1000 < a \<and> a \<le> t) (admissions (trace (limiterRun 8 1000
       [Attempt, Attempt, Attempt, Attempt, Attempt, Attempt, Attempt, Attempt, Attempt,
        Attempt, Elapse 1000, Attempt] (freshWorld 5 []))))) \<le> 8)"
proof -
  have run: "admissions (trace (limiterRun 8 1000
       [Attempt, Attempt, Attempt, Attempt, Attempt, Attempt, Attempt, Attempt, Attempt,
        Attempt, Elapse 1000, Attempt] (freshWorld 5 [])))
     = [5, 5, 5, 5, 5, 5, 5, 5, 1005]"
    by (simp add: freshWorld_def waitForAvailability_step_def Let_def emit_def sleep_def)
  have fresh: "requests (freshWorld 5 []) = []" "trace (freshWorld 5 []) = []"
    by (simp_all add: freshWorld_def)
  show ?thesis
    using run rateLimiter_sliding_window [OF fresh, of 8 1000 _
        "[Attempt, Attempt, Attempt, Attempt, Attempt, Attempt, Attempt, Attempt, Attempt,
          Attempt, Elapse 1000, Attempt]" _, OF _ _ refl refl]
    by simp
qed

section \<open>RetryHelper: retries\<close>

lemma withRetry_loop_resolved:
  assumes "attempt \<le> maxRetries" and "operation w = (Inr result, w1)"
  shows "withRetry_loop operation maxRetries baseDelay attempt lastError w = (Inr result, w1)"
  using assms by (subst withRetry_loop.simps) auto

lemma withRetry_loop_last:
  assumes "attempt = maxRetries" and "operation w = (Inl error, w1)"
  shows "withRetry_loop operation maxRetries baseDelay attempt lastError w = (Inl error, w1)"
  using assms by (subst withRetry_loop.simps) auto

lemma withRetry_loop_undefined:
  assumes "attempt < maxRetries" and "operation w = (Inl Undefined, w1)"
  shows "withRetry_loop operation maxRetries baseDelay attempt lastError w = (Inl typeError, w1)"
  using assms by (subst withRetry_loop.simps) auto

lemma withRetry_loop_other:
  assumes "attempt < maxRetries" and "operation w = (Inl (Error msg), w1)"
    and "\<not> isRateLimitError msg"
  shows "withRetry_loop operation maxRetries baseDelay attempt lastError w
           = (Inl (Error msg), w1)"
  using assms by (subst withRetry_loop.simps) auto

lemma withRetry_loop_retry:
  assumes "attempt < maxRetries" and "operation w = (Inl (Error msg), w1)"
    and "isRateLimitError msg"
  shows "withRetry_loop operation maxRetries baseDelay attempt lastError w
           = withRetry_loop operation maxRetries baseDelay (Suc attempt) (Error msg)
               (sleep \<lfloor>baseDelay * 2 ^ attempt + fst (mathRandom w1) * 1000\<rfloor>
                  (snd (mathRandom w1)))"
  using assms by (subst withRetry_loop.simps) (auto split: prod.splits)

lemma attemptWorld_Suc:
  "attemptWorld operation baseDelay (Suc k) w =
     (let w1 = snd (operation (attemptWorld operation baseDelay k w))
      in sleep \<lfloor>baseDelay * 2 ^ k + fst (mathRandom w1) * 1000\<rfloor> (snd (mathRandom w1)))"
  by (simp add: Let_def split: prod.splits)

lemma withRetry_loop_outcome:
  assumes "a \<le> m"
    and "\<forall>j<a. \<exists>e. fst (operation (attemptWorld operation b j w)) = Inl e \<and> rateLimited e"
  shows "\<exists>k\<le>m.
           (\<forall>j<k. \<exists>e. fst (operation (attemptWorld operation b j w)) = Inl e \<and> rateLimited e)
         \<and> (case operation (attemptWorld operation b k w) of
               (Inr v, w1) \<Rightarrow>
                 withRetry_loop operation m b a lastError (attemptWorld operation b a w) = (Inr v, w1)
             | (Inl e, w1) \<Rightarrow>
                 (k = m \<or> \<not> rateLimited e)
                 \<and> withRetry_loop operation m b a lastError (attemptWorld operation b a w)
                     = (Inl (if k < m \<and> e = Undefined then typeError else e), w1))"
  using assms
proof (induction "m - a" arbitrary: a lastError)
  case 0
  then have am: "a = m" by simp
  obtain r w1 where op: "operation (attemptWorld operation b a w) = (r, w1)"
    by (cases "operation (attemptWorld operation b a w)")
  show ?case
  proof (cases r)
    case (Inl e)
    with op am 0 show ?thesis
      by (intro exI [of _ a]) (simp add: withRetry_loop_last)
  next
    case (Inr v)
    with op am 0 show ?thesis
      by (intro exI [of _ a]) (simp add: withRetry_loop_resolved)
  qed
next
  case (Suc n)
  then have lt: "a < m" by simp
  obtain r w1 where op: "operation (attemptWorld operation b a w) = (r, w1)"
    by (cases "operation (attemptWorld operation b a w)")
  show ?case
  proof (cases r)
    case (Inr v)
    with op lt Suc.prems show ?thesis
      by (intro exI [of _ a]) (simp add: withRetry_loop_resolved)
  next
    case (Inl e)
    show ?thesis
    proof (cases e)
      case Undefined
      with op lt Inl Suc.prems show ?thesis
        by (intro exI [of _ a]) (simp add: withRetry_loop_undefined rateLimited_def)
    next
      case (Error msg)
      show ?thesis
      proof (cases "isRateLimitError msg")
        case False
        with op lt Inl Error Suc.prems show ?thesis
          by (intro exI [of _ a]) (simp add: withRetry_loop_other rateLimited_def)
      next
        case True
        have next_world: "attemptWorld operation b (Suc a) w
            = sleep \<lfloor>b * 2 ^ a + fst (mathRandom w1) * 1000\<rfloor> (snd (mathRandom w1))"
          by (simp add: attemptWorld_Suc op del: attemptWorld.simps)
        have step: "withRetry_loop operation m b a lastError (attemptWorld operation b a w)
            = withRetry_loop operation m b (Suc a) (Error msg)
                (attemptWorld operation b (Suc a) w)"
          unfolding next_world using op lt Inl Error True
          by (intro withRetry_loop_retry) simp_all
        have failed: "\<forall>j<Suc a. \<exists>e. fst (operation (attemptWorld operation b j w)) = Inl e
                         \<and> rateLimited e"
          using Suc.prems(2) op Inl Error True
          by (auto simp: less_Suc_eq rateLimited_def)
        have "n = m - Suc a" and "Suc a \<le> m"
          using Suc.hyps(2) lt by simp_all
        from Suc.hyps(1) [OF this failed, of "Error msg"] show ?thesis
          unfolding step .
      qed
    qed
  qed
qed


text \<open>
  C4. \<^verbatim>\<open>withRetry\<close> returns the result of an operation that succeeds. An error whose
  message carries neither marker is raised at the first failure, the operation having
  run once. In general there is a number \<open>k\<close> of retries, at most \<open>maxRetries\<close>:
  each of the attempts before attempt \<open>k\<close> was rejected with a marked error and was
  followed by its back-off, and \<^verbatim>\<open>withRetry\<close> ends as attempt \<open>k\<close> does, with an error
  only when \<open>k = maxRetries\<close> or the error is not marked. (A thrown \<^verbatim>\<open>undefined\<close>
  is not marked; before the last attempt the \<^verbatim>\<open>catch\<close> block fails on it with a
  type error.)
\<close>

theorem withRetry_retries_rate_limits_only:
  "(\<forall>result w1. operation w = (Inr result, w1)
       \<longrightarrow> withRetry operation maxRetries baseDelay w = (Inr result, w1))
   \<and> (\<forall>msg w1. operation w = (Inl (Error msg), w1) \<and> \<not> isRateLimitError msg
       \<longrightarrow> withRetry operation maxRetries baseDelay w = (Inl (Error msg), w1))
   \<and> (\<exists>k\<le>maxRetries.
         (\<forall>j<k. \<exists>e. fst (operation (attemptWorld operation baseDelay j w)) = Inl e
                   \<and> rateLimited e)
       \<and> (case operation (attemptWorld operation baseDelay k w) of
             (Inr result, w1) \<Rightarrow>
               withRetry operation maxRetries baseDelay w = (Inr result, w1)
           | (Inl e, w1) \<Rightarrow>
               (k = maxRetries \<or> \<not> rateLimited e)
               \<and> withRetry operation maxRetries baseDelay w
                   = (Inl (if k < maxRetries \<and> e = Undefined then typeError else e), w1)))"
proof (intro conjI allI impI)
  fix result w1
  assume "operation w = (Inr result, w1)"
  then show "withRetry operation maxRetries baseDelay w = (Inr result, w1)"
    by (simp add: withRetry_def withRetry_loop_resolved)
next
  fix msg w1
  assume failed: "operation w = (Inl (Error msg), w1) \<and> \<not> isRateLimitError msg"
  show "withRetry operation maxRetries baseDelay w = (Inl (Error msg), w1)"
  proof (cases "maxRetries = 0")
    case True
    with failed show ?thesis by (simp add: withRetry_def withRetry_loop_last)
  next
    case False
    with failed show ?thesis by (simp add: withRetry_def withRetry_loop_other)
  qed
next
  show "\<exists>k\<le>maxRetries.
         (\<forall>j<k. \<exists>e. fst (operation (attemptWorld operation baseDelay j w)) = Inl e
                   \<and> rateLimited e)
       \<and> (case operation (attemptWorld operation baseDelay k w) of
             (Inr result, w1) \<Rightarrow>
               withRetry operation maxRetries baseDelay w = (Inr result, w1)
           | (Inl e, w1) \<Rightarrow>
               (k = maxRetries \<or> \<not> rateLimited e)
               \<and> withRetry operation maxRetries baseDelay w
                   = (Inl (if k < maxRetries \<and> e = Undefined then typeError else e), w1))"
    unfolding withRetry_def
    using withRetry_loop_outcome [of 0 maxRetries operation baseDelay w Undefined,
        unfolded attemptWorld.simps(1)]
    by blast
qed

text \<open>Two rate-limit rejections, then an answer: three requests, 1000 and 2000 ms apart.\<close>

lemma throttled_twice:
  "(case withRetry (fetchTransaction (throttlingChain 2 (sampleTransaction 100 140)) ''sig1'') 3 1000 (freshWorld 0 []) of
      (r, w1) \<Rightarrow>
        r = Inr (Some (sampleTransaction 100 140))
        \<and> trace w1 = [Rpc (GetParsedTransaction (Pool 0) ''sig1''),
                      Rpc (GetParsedTransaction (Pool 0) ''sig1''),
                      Rpc (GetParsedTransaction (Pool 0) ''sig1'')]
        \<and> now w1 = 3000)"
  unfolding withRetry_def
  apply (subst withRetry_loop.simps)
  apply (subst withRetry_loop.simps)
  apply (subst withRetry_loop.simps)
  apply (simp add: fetchTransaction_def getConnection_def mathRandom_def getParsedTransaction_def
      throttlingChain_def freshWorld_def emit_def sleep_def Let_def isRateLimitError_def)
  done

text \<open>An error without a marker: one request, no retry, the error raised.\<close>

theorem withRetry_retries_rate_limits_only_witness:
  "withRetry (fetchTransaction failingChain ''sig1'') 3 1000 (freshWorld 0 [])
     = (Inl (Error (Some ''fetch failed'')),
        emit (Rpc (GetParsedTransaction (Pool 0) ''sig1'')) (freshWorld 0 []))"
proof -
  have op: "fetchTransaction failingChain ''sig1'' (freshWorld 0 [])
     = (Inl (Error (Some ''fetch failed'')),
        emit (Rpc (GetParsedTransaction (Pool 0) ''sig1'')) (freshWorld 0 []))"
    by (simp add: fetchTransaction_def getConnection_def mathRandom_def getParsedTransaction_def
        failingChain_def freshWorld_def emit_def sleep_def Let_def)
  have other: "\<not> isRateLimitError (Some ''fetch failed'')"
    by (simp add: isRateLimitError_def)
  show ?thesis
    using withRetry_retries_rate_limits_only
      [of "fetchTransaction failingChain ''sig1''" "freshWorld 0 []" 3 1000] op other
    by blast
qed

section \<open>Effects of the helpers on the world\<close>

lemma withRetry_loop_exhausted:
  assumes "\<not> attempt \<le> maxRetries"
  shows "withRetry_loop operation maxRetries baseDelay attempt lastError w = (Inl lastError, w)"
  using assms by (subst withRetry_loop.simps) auto

lemma withRetry_loop_frame:
  assumes op: "\<And>v. f (snd (operation v)) = f v"
    and sl: "\<And>d v. f (sleep d v) = f v"
    and rn: "\<And>v. f (snd (mathRandom v)) = f v"
  shows "f (snd (withRetry_loop operation m b a lastError w)) = f w"
proof (induction "m + 1 - a" arbitrary: a lastError w)
  case 0
  then show ?case by (simp add: withRetry_loop_exhausted)
next
  case (Suc n)
  then have le: "a \<le> m" by simp
  obtain r w1 where res: "operation w = (r, w1)"
    by (cases "operation w")
  then have w1: "f w1 = f w"
    using op [of w] by simp
  show ?case
  proof (cases r)
    case (Inr v)
    with res le w1 show ?thesis by (simp add: withRetry_loop_resolved)
  next
    case (Inl e)
    show ?thesis
    proof (cases "a = m")
      case True
      with res Inl w1 show ?thesis by (simp add: withRetry_loop_last)
    next
      case False
      with le have lt: "a < m" by simp
      show ?thesis
      proof (cases e)
        case Undefined
        with res Inl lt w1 show ?thesis by (simp add: withRetry_loop_undefined)
      next
        case (Error msg)
        show ?thesis
        proof (cases "isRateLimitError msg")
          case False
          with res Inl Error lt w1 show ?thesis by (simp add: withRetry_loop_other)
        next
          case True
          have "n = m + 1 - Suc a" using Suc.hyps(2) by simp
          from Suc.hyps(1) [OF this] show ?thesis
            using res Inl Error lt True w1
            by (simp add: withRetry_loop_retry sl rn)
        qed
      qed
    qed
  qed
qed

lemma withRetry_frame:
  assumes "\<And>v. f (snd (operation v)) = f v"
    and "\<And>d v. f (sleep d v) = f v"
    and "\<And>v. f (snd (mathRandom v)) = f v"
  shows "f (snd (withRetry operation m b w)) = f w"
  unfolding withRetry_def by (rule withRetry_loop_frame [OF assms])

lemma mathRandom_fields [simp]:
  "trace (snd (mathRandom w)) = trace w"
  "now (snd (mathRandom w)) = now w"
  "requests (snd (mathRandom w)) = requests w"
  "insertedTransactions (snd (mathRandom w)) = insertedTransactions w"
  by (cases "rng w"; simp add: mathRandom_def)+

lemma sleep_fields [simp]:
  "trace (sleep d w) = trace w"
  "requests (sleep d w) = requests w"
  "insertedTransactions (sleep d w) = insertedTransactions w"
  by (simp_all add: sleep_def)

lemma getConnection_world: "snd (getConnection w) = snd (mathRandom w)"
  by (cases "mathRandom w") (simp add: getConnection_def)

lemma fetchTransaction_trace:
  "trace (snd (fetchTransaction env sig w))
     = trace w @ [Rpc (GetParsedTransaction (fst (getConnection w)) sig)]"
  using getConnection_world [of w]
  by (cases "getConnection w")
    (simp add: fetchTransaction_def getParsedTransaction_def Let_def emit_def)

lemma fetchTransaction_inserted:
  "insertedTransactions (snd (fetchTransaction env sig w)) = insertedTransactions w"
  using getConnection_world [of w]
  by (cases "getConnection w")
    (simp add: fetchTransaction_def getParsedTransaction_def Let_def emit_def)

lemma fetchSignatures_trace:
  "trace (snd (fetchSignatures env addr limit w))
     = trace w @ (if validPublicKey env addr
                  then [Rpc (GetSignaturesForAddress (fst (getConnection w)) addr limit)]
                  else [])"
  using getConnection_world [of w]
  by (cases "getConnection w")
    (simp add: fetchSignatures_def getSignaturesForAddress_def Let_def emit_def)

lemma admissions_Rpc [simp]: "admissions (tr @ [Rpc request]) = admissions tr"
  by (simp add: admissions_append)

lemma waitForAvailability_step_inserted:
  "insertedTransactions (snd (waitForAvailability_step maxRequests timeWindow w))
     = insertedTransactions w"
  by (simp add: waitForAvailability_step_def Let_def emit_def split: list.splits)

lemma limiterRun_inserted:
  "insertedTransactions (limiterRun maxRequests timeWindow acts w) = insertedTransactions w"
proof (induction acts arbitrary: w)
  case Nil
  show ?case by simp
next
  case (Cons act acts)
  then show ?case
    by (cases act) (simp_all add: waitForAvailability_step_inserted)
qed

lemma waitForAvailability_inserted:
  "insertedTransactions (waitForAvailability maxRequests timeWindow w) = insertedTransactions w"
  using waitForAvailability_as_run [of maxRequests timeWindow w]
  by (auto simp: limiterRun_inserted)

lemma waitForAvailability_trace:
  "trace (waitForAvailability maxRequests timeWindow w)
     = trace w @ [Admitted (now (waitForAvailability maxRequests timeWindow w))]"
proof (induction maxRequests timeWindow w rule: waitForAvailability.induct)
  case (1 maxRequests timeWindow w)
  obtain r w1 where step: "waitForAvailability_step maxRequests timeWindow w = (r, w1)"
    by (cases "waitForAvailability_step maxRequests timeWindow w")
  show ?case
  proof (cases r)
    case None
    have finished: "waitForAvailability maxRequests timeWindow w = w1"
      by (subst waitForAvailability.simps) (simp add: step None)
    from step None have "w1 = emit (Admitted (now w))
        (w\<lparr>requests := filter (\<lambda>timestamp. now w - timestamp < timeWindow) (requests w)
               @ [now w]\<rparr>)"
      by (auto simp: waitForAvailability_step_def Let_def split: if_splits list.splits)
    then show ?thesis
      unfolding finished by (simp add: emit_def)
  next
    case (Some waitTime)
    have unfold: "waitForAvailability maxRequests timeWindow w
        = waitForAvailability maxRequests timeWindow (sleep waitTime w1)"
      by (subst waitForAvailability.simps) (simp add: step Some)
    from step Some have "trace w1 = trace w"
      by (auto simp: waitForAvailability_step_def Let_def split: if_splits list.splits)
    with "1.IH" [OF step [symmetric] Some] show ?thesis
      unfolding unfold by simp
  qed
qed

section \<open>Zero delta: nothing emitted, nothing stored\<close>

lemma waitForAvailability_admitted:
  assumes "fst (waitForAvailability_step maxRequests timeWindow w) = None"
  shows "waitForAvailability maxRequests timeWindow w
           = snd (waitForAvailability_step maxRequests timeWindow w)"
  using assms
  by (subst waitForAvailability.simps)
    (cases "waitForAvailability_step maxRequests timeWindow w", simp)

lemma withRetry_loop_now:
  assumes "attempt \<le> maxRetries" and "\<not> isl (fst (operation w))"
  shows "withRetry_loop operation maxRetries baseDelay attempt lastError w = operation w"
proof -
  obtain r w1 where res: "operation w = (r, w1)" by (cases "operation w")
  with assms(2) obtain v where "r = Inr v" by (cases r) simp_all
  with res assms(1) show ?thesis by (simp add: withRetry_loop_resolved)
qed

lemma processTransaction_inserted:
  "insertedTransactions (processTransaction env tokenMint sig addr w)
     = insertedTransactions w
       @ (case fst (withRetry (fetchTransaction env sig) 3 1000
                      (rateLimiter_waitForAvailability w)) of
            Inr (Some tx) \<Rightarrow>
              (case analyzeTransaction tokenMint tx addr of
                 Some analysis \<Rightarrow> [analysis]
               | None \<Rightarrow> [])
          | _ \<Rightarrow> [])"
proof -
  define w1 where "w1 = rateLimiter_waitForAvailability w"
  obtain r w2 where res: "withRetry (fetchTransaction env sig) 3 1000 w1 = (r, w2)"
    by (cases "withRetry (fetchTransaction env sig) 3 1000 w1")
  have "insertedTransactions (snd (withRetry (fetchTransaction env sig) 3 1000 w1))
          = insertedTransactions w1"
    by (rule withRetry_frame) (simp_all add: fetchTransaction_inserted)
  then have "insertedTransactions w2 = insertedTransactions w1"
    by (simp add: res)
  moreover have "insertedTransactions w1 = insertedTransactions w"
    by (simp add: w1_def rateLimiter_waitForAvailability_def waitForAvailability_inserted)
  ultimately have kept: "insertedTransactions w2 = insertedTransactions w"
    by simp
  show ?thesis
    using res kept
    by (simp add: processTransaction_def w1_def [symmetric] insertTransaction_def
          split: sum.splits option.splits)
qed

lemma findBalance_missing:
  assumes "find (\<lambda>b. owner b = Some addr \<and> mint b = tokenMint) balances = None"
  shows "toNumber (findBalance tokenMint balances addr) = 0"
  using assms by (simp add: findBalance_def toNumber_def)

text \<open>
  C2. When the balance of the wallet after the transaction equals the one before it, a
  side without an entry for the wallet and the mint counting as 0,
  \<^verbatim>\<open>analyzeTransaction\<close> returns \<^verbatim>\<open>null\<close>, and \<^verbatim>\<open>processTransaction\<close>, having fetched
  this transaction, hands nothing to storage.
\<close>

theorem zero_delta_emits_nothing:
  assumes "meta tx = Some m"
    and "pre = toNumber (findBalance tokenMint (orEmpty (preTokenBalances m)) addr)"
    and "post = toNumber (findBalance tokenMint (orEmpty (postTokenBalances m)) addr)"
    and "post - pre = 0"
  shows "analyzeTransaction tokenMint tx addr = None
       \<and> (fst (withRetry (fetchTransaction env sig) 3 1000 (rateLimiter_waitForAvailability w))
            = Inr (Some tx)
          \<longrightarrow> insertedTransactions (processTransaction env tokenMint sig addr w)
                = insertedTransactions w)
       \<and> (find (\<lambda>b. owner b = Some addr \<and> mint b = tokenMint) (orEmpty (preTokenBalances m))
            = None \<longrightarrow> pre = 0)
       \<and> (find (\<lambda>b. owner b = Some addr \<and> mint b = tokenMint) (orEmpty (postTokenBalances m))
            = None \<longrightarrow> post = 0)"
proof -
  have "calculateTokenBalanceChange tokenMint (orEmpty (preTokenBalances m))
          (orEmpty (postTokenBalances m)) addr = 0"
    using assms(2-4) by (simp add: calculateTokenBalanceChange_def)
  then have none: "analyzeTransaction tokenMint tx addr = None"
    using assms(1) by (simp add: analyzeTransaction_def split: option.splits)
  then have "fst (withRetry (fetchTransaction env sig) 3 1000 (rateLimiter_waitForAvailability w))
              = Inr (Some tx)
            \<longrightarrow> insertedTransactions (processTransaction env tokenMint sig addr w)
                  = insertedTransactions w"
    by (simp add: processTransaction_inserted)
  with none show ?thesis
    using assms(2,3) by (simp add: findBalance_missing)
qed

lemma sample_fetch:
  "fst (withRetry (fetchTransaction (throttlingChain 0 tx) ''sig1'') 3 1000
          (rateLimiter_waitForAvailability (freshWorld 0 []))) = Inr (Some tx)"
  by (simp add: rateLimiter_waitForAvailability_def waitForAvailability_admitted
        waitForAvailability_step_def freshWorld_def emit_def Let_def withRetry_def
        withRetry_loop_now fetchTransaction_def getConnection_def mathRandom_def
        getParsedTransaction_def throttlingChain_def sleep_def)

text \<open>
  140 before and 140 after: no record, and nothing stored. No entry before and a
  \<^verbatim>\<open>null\<close> amount after: no record either.
\<close>

theorem zero_delta_emits_nothing_witness:
  "analyzeTransaction ''MINT'' (sampleTransaction 140 140) ''W'' = None
   \<and> insertedTransactions
        (processTransaction (throttlingChain 0 (sampleTransaction 140 140)) ''MINT'' ''sig1'' ''W''
           (freshWorld 0 [])) = []
   \<and> analyzeTransaction ''MINT'' sampleArrival ''W'' = None"
proof -
  have stored: "insertedTransactions (freshWorld 0 []) = []"
    by (simp add: freshWorld_def)
  have a: "(140::real)
      = toNumber (findBalance ''MINT'' (orEmpty (preTokenBalances (sampleMeta 140 140))) ''W'')"
    and b: "(140::real)
      = toNumber (findBalance ''MINT'' (orEmpty (postTokenBalances (sampleMeta 140 140))) ''W'')"
    by (simp_all add: sampleMeta_def sampleBalance_def findBalance_def toNumber_def orEmpty_def)
  have first: "analyzeTransaction ''MINT'' (sampleTransaction 140 140) ''W'' = None
     \<and> insertedTransactions
        (processTransaction (throttlingChain 0 (sampleTransaction 140 140)) ''MINT'' ''sig1'' ''W''
           (freshWorld 0 [])) = []"
    using zero_delta_emits_nothing
      [of "sampleTransaction 140 140" "sampleMeta 140 140" 140 "''MINT''" "''W''" 140
         "throttlingChain 0 (sampleTransaction 140 140)" "''sig1''" "freshWorld 0 []", OF _ a b]
      sample_fetch [of "sampleTransaction 140 140"] stored
    by (simp add: sampleTransaction_def)
  have "analyzeTransaction ''MINT'' sampleArrival ''W'' = None"
    using zero_delta_emits_nothing
      [of sampleArrival "the (meta sampleArrival)" 0 "''MINT''" "''W''" 0]
    by (simp add: sampleArrival_def findBalance_def toNumber_def orEmpty_def)
  with first show ?thesis by simp
qed

section \<open>One admission for all the attempts\<close>

lemma withRetry_loop_requests:
  assumes op: "\<And>v. \<exists>rs. trace (snd (operation v)) = trace v @ map Rpc rs
                          \<and> lo \<le> length rs \<and> length rs \<le> 1"
    and "a \<le> m"
  shows "\<exists>reqs. trace (snd (withRetry_loop operation m b a lastError w)) = trace w @ map Rpc reqs
                \<and> lo \<le> length reqs \<and> length reqs \<le> m + 1 - a"
  using assms(2)
proof (induction "m - a" arbitrary: a lastError w)
  case 0
  then have am: "a = m" by simp
  obtain r w1 where res: "operation w = (r, w1)" by (cases "operation w")
  from op [of w] res obtain rs where
    rs: "trace w1 = trace w @ map Rpc rs" "lo \<le> length rs" "length rs \<le> 1"
    by auto
  have "withRetry_loop operation m b a lastError w = (r, w1)"
    using res am by (cases r) (simp_all add: withRetry_loop_last withRetry_loop_resolved)
  with rs am show ?case by auto
next
  case (Suc n)
  then have lt: "a < m" by simp
  obtain r w1 where res: "operation w = (r, w1)" by (cases "operation w")
  from op [of w] res obtain rs where
    rs: "trace w1 = trace w @ map Rpc rs" "lo \<le> length rs" "length rs \<le> 1"
    by auto
  have stop: ?case if "snd (withRetry_loop operation m b a lastError w) = w1"
    using that rs lt by (intro exI [of _ rs]) simp
  show ?case
  proof (cases r)
    case (Inr v)
    with res lt show ?thesis by (intro stop) (simp add: withRetry_loop_resolved)
  next
    case (Inl e)
    show ?thesis
    proof (cases e)
      case Undefined
      with res Inl lt show ?thesis by (intro stop) (simp add: withRetry_loop_undefined)
    next
      case (Error msg)
      show ?thesis
      proof (cases "isRateLimitError msg")
        case False
        with res Inl Error lt show ?thesis by (intro stop) (simp add: withRetry_loop_other)
      next
        case True
        define w2 where "w2 = sleep \<lfloor>b * 2 ^ a + fst (mathRandom w1) * 1000\<rfloor> (snd (mathRandom w1))"
        have again: "withRetry_loop operation m b a lastError w
            = withRetry_loop operation m b (Suc a) (Error msg) w2"
          using res Inl Error lt True by (simp add: withRetry_loop_retry w2_def)
        have "n = m - Suc a" and "Suc a \<le> m" using Suc.hyps(2) lt by simp_all
        from Suc.hyps(1) [OF this, of "Error msg" w2] obtain reqs where
          reqs: "trace (snd (withRetry_loop operation m b (Suc a) (Error msg) w2))
                   = trace w2 @ map Rpc reqs"
            "lo \<le> length reqs" "length reqs \<le> m + 1 - Suc a"
          by blast
        have "trace w2 = trace w @ map Rpc rs"
          by (simp add: w2_def rs)
        with reqs rs lt show ?thesis
          unfolding again by (intro exI [of _ "rs @ reqs"]) simp
      qed
    qed
  qed
qed

lemma fetchTransaction_one_request:
  "\<exists>rs. trace (snd (fetchTransaction env sig v)) = trace v @ map Rpc rs
        \<and> 1 \<le> length rs \<and> length rs \<le> 1"
  by (intro exI [of _ "[GetParsedTransaction (fst (getConnection v)) sig]"])
    (simp add: fetchTransaction_trace)

lemma fetchSignatures_one_request:
  "\<exists>rs. trace (snd (fetchSignatures env addr limit v)) = trace v @ map Rpc rs
        \<and> 0 \<le> length rs \<and> length rs \<le> 1"
  by (intro exI [of _ "if validPublicKey env addr
                       then [GetSignaturesForAddress (fst (getConnection v)) addr limit]
                       else []"])
    (simp add: fetchSignatures_trace)

lemma admissions_requests [simp]: "admissions (tr @ map Rpc reqs) = admissions tr"
  by (induction reqs rule: rev_induct) (simp_all add: admissions_append)

lemma admitted_then_requests:
  assumes op: "\<And>v. \<exists>rs. trace (snd (operation v)) = trace v @ map Rpc rs
                          \<and> lo \<le> length rs \<and> length rs \<le> 1"
  shows "\<exists>t reqs. trace (snd (withRetry operation 3 b (rateLimiter_waitForAvailability w)))
                    = trace w @ Admitted t # map Rpc reqs
                  \<and> lo \<le> length reqs \<and> length reqs \<le> 4"
proof -
  define w1 where "w1 = rateLimiter_waitForAvailability w"
  have first: "trace w1 = trace w @ [Admitted (now w1)]"
    unfolding w1_def rateLimiter_waitForAvailability_def by (rule waitForAvailability_trace)
  from withRetry_loop_requests [of operation lo 0 3 b Undefined w1, OF op]
  obtain reqs where "trace (snd (withRetry operation 3 b w1)) = trace w1 @ map Rpc reqs"
    and "lo \<le> length reqs" and "length reqs \<le> 4"
    unfolding withRetry_def by auto
  with first show ?thesis
    unfolding w1_def [symmetric] by (intro exI [of _ "now w1"] exI [of _ reqs]) simp
qed

lemma processTransaction_trace:
  "trace (processTransaction env tokenMint sig addr w)
     = trace (snd (withRetry (fetchTransaction env sig) 3 1000
                     (rateLimiter_waitForAvailability w)))"
  by (simp add: processTransaction_def Let_def insertTransaction_def
        split: prod.splits sum.splits option.splits)

text \<open>
  C6, as the code has it. \<^verbatim>\<open>withRetry\<close> makes no admission, however often it re-issues
  the request. Each of the three callers acquires admission once, before \<^verbatim>\<open>withRetry\<close>:
  what fetching a transaction (in \<^verbatim>\<open>processTransaction\<close> and in
  \<^verbatim>\<open>getWalletTransactionHistory\<close>) and fetching the signatures (in
  \<^verbatim>\<open>handleAccountChange\<close> and in \<^verbatim>\<open>getWalletTransactionHistory\<close>) add to the trace is
  one admission followed by at most four requests, the retries among them following the
  back-off alone.
\<close>

theorem retries_share_one_admission:
  "admissions (trace (snd (withRetry (fetchTransaction env sig) maxRetries baseDelay w)))
     = admissions (trace w)
   \<and> admissions (trace (snd (withRetry (fetchSignatures env addr limit) maxRetries baseDelay w)))
     = admissions (trace w)
   \<and> (\<exists>t reqs. trace (snd (withRetry (fetchTransaction env sig) 3 1000
                              (rateLimiter_waitForAvailability w)))
                  = trace w @ Admitted t # map Rpc reqs
                \<and> 1 \<le> length reqs \<and> length reqs \<le> 4)
   \<and> (\<exists>t reqs. trace (snd (withRetry (fetchSignatures env addr limit) 3 1000
                              (rateLimiter_waitForAvailability w)))
                  = trace w @ Admitted t # map Rpc reqs
                \<and> length reqs \<le> 4)
   \<and> (\<exists>t reqs. trace (processTransaction env tokenMint sig addr w)
                  = trace w @ Admitted t # map Rpc reqs
                \<and> 1 \<le> length reqs \<and> length reqs \<le> 4)"
proof -
  have a: "admissions (trace (snd (withRetry (fetchTransaction env sig) maxRetries baseDelay w)))
     = admissions (trace w)"
    by (rule withRetry_frame [where f = "\<lambda>v. admissions (trace v)"])
      (simp_all add: fetchTransaction_trace)
  have b: "admissions (trace (snd (withRetry (fetchSignatures env addr limit) maxRetries
              baseDelay w))) = admissions (trace w)"
    by (rule withRetry_frame [where f = "\<lambda>v. admissions (trace v)"])
      (simp_all add: fetchSignatures_trace admissions_append)
  have c: "\<exists>t reqs. trace (snd (withRetry (fetchTransaction env sig) 3 1000
                              (rateLimiter_waitForAvailability w)))
                  = trace w @ Admitted t # map Rpc reqs
                \<and> 1 \<le> length reqs \<and> length reqs \<le> 4"
    by (rule admitted_then_requests) (rule fetchTransaction_one_request)
  have d: "\<exists>t reqs. trace (snd (withRetry (fetchSignatures env addr limit) 3 1000
                              (rateLimiter_waitForAvailability w)))
                  = trace w @ Admitted t # map Rpc reqs
                \<and> length reqs \<le> 4"
    using admitted_then_requests [of "fetchSignatures env addr limit" 0 1000 w]
      fetchSignatures_one_request [of env addr limit]
    by simp
  from a b c d show ?thesis
    unfolding processTransaction_trace by blast
qed

lemma sample_retry:
  "trace (processTransaction (throttlingChain 1 (sampleTransaction 100 140))
            ''MINT'' ''sig1'' ''W'' (freshWorld 0 []))
     = [Admitted 0, Rpc (GetParsedTransaction (Pool 0) ''sig1''),
        Rpc (GetParsedTransaction (Pool 0) ''sig1'')]"
  unfolding processTransaction_trace withRetry_def
  apply (subst withRetry_loop.simps)
  apply (subst withRetry_loop.simps)
  apply (simp add: rateLimiter_waitForAvailability_def waitForAvailability_admitted
        waitForAvailability_step_def freshWorld_def emit_def Let_def
        fetchTransaction_def getConnection_def mathRandom_def
        getParsedTransaction_def throttlingChain_def sleep_def isRateLimitError_def)
  done

text \<open>
  One rate-limit rejection, then an answer: the request is sent twice after a single
  admission, so the second request has no admission of its own.
\<close>

theorem retries_share_one_admission_witness:
  "trace (processTransaction (throttlingChain 1 (sampleTransaction 100 140))
            ''MINT'' ''sig1'' ''W'' (freshWorld 0 []))
     = [Admitted 0, Rpc (GetParsedTransaction (Pool 0) ''sig1''),
        Rpc (GetParsedTransaction (Pool 0) ''sig1'')]
   \<and> admissions (trace (snd (withRetry
        (fetchTransaction (throttlingChain 1 (sampleTransaction 100 140)) ''sig1'') 3 1000
        (freshWorld 0 [])))) = []"
  using sample_retry retries_share_one_admission
    [of "throttlingChain 1 (sampleTransaction 100 140)" "''sig1''" 3 1000 "freshWorld 0 []"]
  by (simp add: freshWorld_def)

theorem retry_not_admitted_counterexample:
  "\<not> everyRequestAdmitted False
       (trace (processTransaction (throttlingChain 1 (sampleTransaction 100 140))
                 ''MINT'' ''sig1'' ''W'' (freshWorld 0 [])))"
  by (subst sample_retry) simp

section \<open>getWalletTransactionHistory\<close>

lemma withRetry_loop_raise:
  assumes "attempt \<le> maxRetries" and "isl (fst (operation w))"
    and "\<not> rateLimited (projl (fst (operation w)))"
    and "projl (fst (operation w)) \<noteq> Undefined"
  shows "withRetry_loop operation maxRetries baseDelay attempt lastError w = operation w"
proof -
  obtain r w1 where res: "operation w = (r, w1)" by (cases "operation w")
  with assms(2) obtain e where e: "r = Inl e" by (cases r) simp_all
  with assms(3,4) res obtain msg where msg: "e = Error msg" "\<not> isRateLimitError msg"
    by (cases e) (simp_all add: rateLimited_def)
  show ?thesis
  proof (cases "attempt = maxRetries")
    case True
    with res e show ?thesis by (simp add: withRetry_loop_last)
  next
    case False
    with assms(1) have "attempt < maxRetries" by simp
    with res e msg show ?thesis by (simp add: withRetry_loop_other)
  qed
qed

lemma withRetry_loop_again:
  assumes "attempt < maxRetries" and "isl (fst (operation w))"
    and "rateLimited (projl (fst (operation w)))"
  shows "withRetry_loop operation maxRetries baseDelay attempt lastError w
           = withRetry_loop operation maxRetries baseDelay (Suc attempt)
               (projl (fst (operation w)))
               (sleep \<lfloor>baseDelay * 2 ^ attempt + fst (mathRandom (snd (operation w))) * 1000\<rfloor>
                  (snd (mathRandom (snd (operation w)))))"
proof -
  obtain r w1 where res: "operation w = (r, w1)" by (cases "operation w")
  with assms(2) obtain e where e: "r = Inl e" by (cases r) simp_all
  with assms(3) res obtain msg where msg: "e = Error msg" "isRateLimitError msg"
    by (cases e) (simp_all add: rateLimited_def)
  with res e assms(1) show ?thesis by (simp add: withRetry_loop_retry)
qed

lemma withRetry_loop_spent:
  assumes "attempt = maxRetries" and "isl (fst (operation w))"
  shows "withRetry_loop operation maxRetries baseDelay attempt lastError w = operation w"
proof -
  obtain r w1 where res: "operation w = (r, w1)" by (cases "operation w")
  with assms(2) obtain e where e: "r = Inl e" by (cases r) simp_all
  with res assms(1) show ?thesis by (simp add: withRetry_loop_last)
qed

lemma history_loop_fetches:
  "getWalletTransactionHistory_loop env tokenMint addr sigs transactions w
     = (case fetchTransactions env sigs w of
          (Inl error, w3) \<Rightarrow> (Inl error, w3)
        | (Inr txs, w3) \<Rightarrow> (Inr (transactions @ classified tokenMint addr txs), w3))"
proof (induction sigs arbitrary: transactions w)
  case Nil
  show ?case by (simp add: classified_def)
next
  case (Cons sig rest)
  obtain r w2 where res:
    "withRetry (fetchTransaction env sig) 3 1000 (rateLimiter_waitForAvailability w) = (r, w2)"
    by (cases "withRetry (fetchTransaction env sig) 3 1000 (rateLimiter_waitForAvailability w)")
  show ?case
  proof (cases r)
    case (Inl e)
    with res show ?thesis by simp
  next
    case (Inr fetched)
    obtain r3 w3 where rest: "fetchTransactions env rest w2 = (r3, w3)"
      by (cases "fetchTransactions env rest w2")
    show ?thesis
    proof (cases fetched)
      case None
      with res Inr rest Cons.IH [of transactions w2] show ?thesis
        by (cases r3) (simp_all add: classified_def)
    next
      case (Some tx)
      show ?thesis
      proof (cases "analyzeTransaction tokenMint tx addr")
        case None
        with res Inr Some rest Cons.IH [of transactions w2] show ?thesis
          by (cases r3) (simp_all add: classified_def)
      next
        case (Some analysis)
        with res Inr \<open>fetched = Some tx\<close> rest Cons.IH [of "transactions @ [analysis]" w2]
        show ?thesis
          by (cases r3) (simp_all add: classified_def)
      qed
    qed
  qed
qed

text \<open>
  C10. \<^verbatim>\<open>getWalletTransactionHistory\<close> always resolves: when fetching the signatures
  fails, or fetching one of the transactions does, the result is the empty list; when
  all fetches succeed, the result is the list of the classifications of the fetched
  transactions that are present and not \<^verbatim>\<open>null\<close>, in the order of the signatures.
\<close>

theorem getWalletTransactionHistory_never_raises:
  "(\<exists>transactions. fst (getWalletTransactionHistory env tokenMint addr limit w) = Inr transactions)
   \<and> (\<forall>error. fst (getWalletTransactionHistory_try env tokenMint addr limit w) = Inl error
        \<longrightarrow> fst (getWalletTransactionHistory env tokenMint addr limit w) = Inr [])
   \<and> (\<forall>error w2. withRetry (fetchSignatures env addr limit) 3 1000
                     (rateLimiter_waitForAvailability w) = (Inl error, w2)
        \<longrightarrow> getWalletTransactionHistory env tokenMint addr limit w = (Inr [], w2))
   \<and> (\<forall>sigs w2 error w3.
         withRetry (fetchSignatures env addr limit) 3 1000 (rateLimiter_waitForAvailability w)
           = (Inr sigs, w2)
         \<and> fetchTransactions env sigs w2 = (Inl error, w3)
        \<longrightarrow> getWalletTransactionHistory env tokenMint addr limit w = (Inr [], w3))
   \<and> (\<forall>sigs w2 txs w3.
         withRetry (fetchSignatures env addr limit) 3 1000 (rateLimiter_waitForAvailability w)
           = (Inr sigs, w2)
         \<and> fetchTransactions env sigs w2 = (Inr txs, w3)
        \<longrightarrow> getWalletTransactionHistory env tokenMint addr limit w
              = (Inr (classified tokenMint addr txs), w3))"
proof (intro conjI allI impI)
  show "\<exists>transactions. fst (getWalletTransactionHistory env tokenMint addr limit w)
          = Inr transactions"
    by (simp add: getWalletTransactionHistory_def split: prod.splits sum.splits)
next
  fix error
  assume "fst (getWalletTransactionHistory_try env tokenMint addr limit w) = Inl error"
  then show "fst (getWalletTransactionHistory env tokenMint addr limit w) = Inr []"
    by (cases "getWalletTransactionHistory_try env tokenMint addr limit w")
      (simp add: getWalletTransactionHistory_def)
next
  fix error w2
  assume "withRetry (fetchSignatures env addr limit) 3 1000 (rateLimiter_waitForAvailability w)
            = (Inl error, w2)"
  then show "getWalletTransactionHistory env tokenMint addr limit w = (Inr [], w2)"
    by (simp add: getWalletTransactionHistory_def getWalletTransactionHistory_try_def)
next
  fix sigs w2 error w3
  assume "withRetry (fetchSignatures env addr limit) 3 1000 (rateLimiter_waitForAvailability w)
            = (Inr sigs, w2)
          \<and> fetchTransactions env sigs w2 = (Inl error, w3)"
  then show "getWalletTransactionHistory env tokenMint addr limit w = (Inr [], w3)"
    by (simp add: getWalletTransactionHistory_def getWalletTransactionHistory_try_def
          history_loop_fetches)
next
  fix sigs w2 txs w3
  assume "withRetry (fetchSignatures env addr limit) 3 1000 (rateLimiter_waitForAvailability w)
            = (Inr sigs, w2)
          \<and> fetchTransactions env sigs w2 = (Inr txs, w3)"
  then show "getWalletTransactionHistory env tokenMint addr limit w
               = (Inr (classified tokenMint addr txs), w3)"
    by (simp add: getWalletTransactionHistory_def getWalletTransactionHistory_try_def
          history_loop_fetches)
qed


text \<open>The equations that run the helpers on a given world.\<close>

lemmas run_simps =
  rateLimiter_waitForAvailability_def waitForAvailability_admitted waitForAvailability_step_def
  withRetry_def withRetry_loop_now withRetry_loop_raise withRetry_loop_again
  withRetry_loop_spent rateLimited_def isRateLimitError_def
  fetchSignatures_def fetchTransaction_def getSignaturesForAddress_def getParsedTransaction_def
  getConnection_def mathRandom_def emit_def sleep_def Let_def freshWorld_def

lemma history_fails:
  "fst (getWalletTransactionHistory_try failingChain ''MINT'' ''W'' 50 (freshWorld 0 []))
     = Inl (Error (Some ''fetch failed''))"
  by (simp add: getWalletTransactionHistory_try_def failingChain_def run_simps)

lemma history_throttled:
  "fst (getWalletTransactionHistory_try (throttlingChain 4 (sampleTransaction 100 140))
          ''MINT'' ''W'' 50 (freshWorld 0 []))
     = Inl (Error (Some ''429 Too Many Requests''))"
  by (simp add: getWalletTransactionHistory_try_def throttlingChain_def run_simps)

lemma history_found:
  "\<exists>r. fst (getWalletTransactionHistory (throttlingChain 0 (sampleTransaction 100 140))
          ''MINT'' ''W'' 50 (freshWorld 0 [])) = Inr [r]
       \<and> txType r = buy \<and> amount r = 40 \<and> protocol r = ''jupiter''"
  by (simp add: getWalletTransactionHistory_def getWalletTransactionHistory_try_def
        throttlingChain_def run_simps analyzeTransaction_def calculateTokenBalanceChange_def
        findBalance_def toNumber_def orEmpty_def sampleTransaction_def sampleMeta_def
        sampleBalance_def sampleBody_def detectProtocol_def protocols_def)

text \<open>
  A node that fails, and a node that rejects five requests for their rate: the empty
  list, no error. A node that answers: the one classified transaction.
\<close>

theorem getWalletTransactionHistory_never_raises_witness:
  "fst (getWalletTransactionHistory failingChain ''MINT'' ''W'' 50 (freshWorld 0 [])) = Inr []
   \<and> fst (getWalletTransactionHistory (throttlingChain 4 (sampleTransaction 100 140))
            ''MINT'' ''W'' 50 (freshWorld 0 [])) = Inr []
   \<and> (\<exists>r. fst (getWalletTransactionHistory (throttlingChain 0 (sampleTransaction 100 140))
               ''MINT'' ''W'' 50 (freshWorld 0 [])) = Inr [r]
          \<and> txType r = buy \<and> amount r = 40 \<and> protocol r = ''jupiter'')"
proof -
  note failed = getWalletTransactionHistory_never_raises
      [of failingChain "''MINT''" "''W''" 50 "freshWorld 0 []",
        THEN conjunct2, THEN conjunct1, rule_format, OF history_fails]
  note throttled = getWalletTransactionHistory_never_raises
      [of "throttlingChain 4 (sampleTransaction 100 140)" "''MINT''" "''W''" 50
          "freshWorld 0 []",
        THEN conjunct2, THEN conjunct1, rule_format, OF history_throttled]
  from failed throttled history_found show ?thesis
    by (intro conjI)
qed

section \<open>The holder cache\<close>

lemma getTopTokenHolders_parts:
  "getTopTokenHolders env limit w =
     (case getTopTokenHolders_request env limit w of
        (Inl cached, w1) \<Rightarrow> (Inr cached, w1)
      | (Inr pending, w1) \<Rightarrow>
          getTopTokenHolders_response pending (sleep (int (latency env w1)) w1))"
  by (simp add: getTopTokenHolders_def getTopTokenHolders_request_def
        getTopTokenHolders_response_def Let_def emit_def sleep_def split: sum.splits)









text \<open>
  C8 at \<open>limit = 1\<close>, the API answering with two holders: the call that refreshes
  returns both, the next call returns one from the cache.
\<close>

theorem refresh_ignores_limit:
  "(\<exists>wallets. fst (getTopTokenHolders (holdersChain sampleHolders) 1 (freshWorld 1000000 []))
                 = Inr wallets
             \<and> map address wallets = [''A'', ''B''])
   \<and> (\<exists>wallets. fst (getTopTokenHolders (holdersChain sampleHolders) 1
                        (snd (getTopTokenHolders (holdersChain sampleHolders) 1
                                (freshWorld 1000000 []))))
                 = Inr wallets
             \<and> map address wallets = [''A''])"
  by (simp add: getTopTokenHolders_def holdersChain_def sampleHolders_def freshWorld_def
        emit_def sleep_def Let_def orEmpty_def insertWallet_def slice0_def toWallet_def)

section \<open>Subscriptions\<close>

lemma limiterRun_frame:
  assumes "\<And>v. f (snd (waitForAvailability_step maxRequests timeWindow v)) = f v"
    and "\<And>d v. f (sleep d v) = f v"
  shows "f (limiterRun maxRequests timeWindow acts w) = f w"
proof (induction acts arbitrary: w)
  case Nil
  show ?case by simp
next
  case (Cons act acts)
  then show ?case by (cases act) (simp_all add: assms)
qed

lemma waitForAvailability_frame:
  assumes "\<And>v. f (snd (waitForAvailability_step maxRequests timeWindow v)) = f v"
    and "\<And>d v. f (sleep d v) = f v"
  shows "f (waitForAvailability maxRequests timeWindow w) = f w"
  using waitForAvailability_as_run [of maxRequests timeWindow w]
    limiterRun_frame [of f maxRequests timeWindow, OF assms]
  by auto

lemma waitForAvailability_step_subscriptions:
  "subscriptions (snd (waitForAvailability_step maxRequests timeWindow w)) = subscriptions w"
  "listeners (snd (waitForAvailability_step maxRequests timeWindow w)) = listeners w"
  by (simp_all add: waitForAvailability_step_def Let_def emit_def split: list.splits)

lemma rateLimiter_subscriptions:
  "subscriptions (rateLimiter_waitForAvailability w) = subscriptions w"
  "listeners (rateLimiter_waitForAvailability w) = listeners w"
  unfolding rateLimiter_waitForAvailability_def
  by (rule waitForAvailability_frame;
      simp add: waitForAvailability_step_subscriptions sleep_def)+

lemma getConnection_subscriptions:
  "subscriptions (snd (getConnection w)) = subscriptions w"
  "listeners (snd (getConnection w)) = listeners w"
  unfolding getConnection_world by (cases "rng w"; simp add: mathRandom_def)+

lemma subscribeWallet_effect:
  "\<exists>connection subscriptionId.
     listeners (subscribeWallet env addr w)
       = listeners w @ (if validPublicKey env addr then [(connection, subscriptionId, addr)]
                        else [])
   \<and> subscriptions (subscribeWallet env addr w)
       = (if validPublicKey env addr
          then AList.update addr (subscriptionId, connection) (subscriptions w)
          else subscriptions w)"
proof (cases "validPublicKey env addr")
  case False
  then show ?thesis
    by (simp add: subscribeWallet_def Let_def rateLimiter_subscriptions)
next
  case True
  define w1 where "w1 = rateLimiter_waitForAvailability w"
  obtain connection w2 where c: "getConnection w1 = (connection, w2)"
    by (cases "getConnection w1")
  then have "w2 = snd (getConnection w1)" by simp
  then have w2: "subscriptions w2 = subscriptions w" "listeners w2 = listeners w"
    by (simp_all add: getConnection_subscriptions w1_def rateLimiter_subscriptions)
  show ?thesis
    using True c w2
    by (intro exI [of _ connection] exI [of _ "nextListenerId w2 connection"])
      (simp add: subscribeWallet_def w1_def [symmetric] onAccountChange_def Let_def emit_def)
qed

lemma subscribeWallets_effect:
  "\<exists>opened.
     listeners (fold (subscribeWallet env) batch w) = listeners w @ opened
   \<and> map (\<lambda>(connection, subscriptionId, addr). addr) opened = filter (validPublicKey env) batch
   \<and> (distinct (map fst (subscriptions w))
        \<longrightarrow> distinct (map fst (subscriptions (fold (subscribeWallet env) batch w))))"
proof (induction batch arbitrary: w)
  case Nil
  show ?case by simp
next
  case (Cons addr batch)
  obtain connection subscriptionId where one:
    "listeners (subscribeWallet env addr w)
       = listeners w @ (if validPublicKey env addr then [(connection, subscriptionId, addr)]
                        else [])"
    "subscriptions (subscribeWallet env addr w)
       = (if validPublicKey env addr
          then AList.update addr (subscriptionId, connection) (subscriptions w)
          else subscriptions w)"
    using subscribeWallet_effect by blast
  obtain opened where rest:
    "listeners (fold (subscribeWallet env) batch (subscribeWallet env addr w))
       = listeners (subscribeWallet env addr w) @ opened"
    "map (\<lambda>(connection, subscriptionId, addr). addr) opened = filter (validPublicKey env) batch"
    "distinct (map fst (subscriptions (subscribeWallet env addr w)))
       \<longrightarrow> distinct (map fst (subscriptions
             (fold (subscribeWallet env) batch (subscribeWallet env addr w))))"
    using Cons.IH [of "subscribeWallet env addr w"] by blast
  have keys: "distinct (map fst (subscriptions w))
      \<longrightarrow> distinct (map fst (subscriptions (subscribeWallet env addr w)))"
    by (simp add: one(2) distinct_update)
  show ?case
    using one(1) rest keys
    by (intro exI [of _ "(if validPublicKey env addr then [(connection, subscriptionId, addr)]
                          else []) @ opened"]) simp
qed

lemma subscribe_loop_effect:
  "\<exists>opened.
     listeners (subscribeToWalletTransactions_loop env walletAddresses i w) = listeners w @ opened
   \<and> map (\<lambda>(connection, subscriptionId, addr). addr) opened
       = filter (validPublicKey env) (drop i walletAddresses)
   \<and> (distinct (map fst (subscriptions w))
        \<longrightarrow> distinct (map fst (subscriptions
              (subscribeToWalletTransactions_loop env walletAddresses i w))))"
proof (induction env walletAddresses i w rule: subscribeToWalletTransactions_loop.induct)
  case (1 env walletAddresses i w)
  show ?case
  proof (cases "i < length walletAddresses")
    case False
    then show ?thesis
      by (subst (1 2) subscribeToWalletTransactions_loop.simps) simp
  next
    case True
    define batch where "batch = take 5 (drop i walletAddresses)"
    define w1 where "w1 = fold (subscribeWallet env) batch w"
    define w2 where "w2 = (if i + 5 < length walletAddresses then sleep 200 w1 else w1)"
    have unfold: "subscribeToWalletTransactions_loop env walletAddresses i w
        = subscribeToWalletTransactions_loop env walletAddresses (i + 5) w2"
      using True
      by (subst subscribeToWalletTransactions_loop.simps)
        (simp add: Let_def batch_def w1_def w2_def)
    have w2: "listeners w2 = listeners w1" "subscriptions w2 = subscriptions w1"
      by (simp_all add: w2_def sleep_def)
    obtain first where first:
      "listeners w1 = listeners w @ first"
      "map (\<lambda>(connection, subscriptionId, addr). addr) first = filter (validPublicKey env) batch"
      "distinct (map fst (subscriptions w)) \<longrightarrow> distinct (map fst (subscriptions w1))"
      using subscribeWallets_effect [of env batch w] unfolding w1_def by blast
    obtain later where later:
      "listeners (subscribeToWalletTransactions_loop env walletAddresses (i + 5) w2)
         = listeners w2 @ later"
      "map (\<lambda>(connection, subscriptionId, addr). addr) later
         = filter (validPublicKey env) (drop (i + 5) walletAddresses)"
      "distinct (map fst (subscriptions w2))
         \<longrightarrow> distinct (map fst (subscriptions
               (subscribeToWalletTransactions_loop env walletAddresses (i + 5) w2)))"
      using "1.IH" [OF True batch_def w1_def w2_def] by blast
    have "filter (validPublicKey env) batch
            @ filter (validPublicKey env) (drop (i + 5) walletAddresses)
          = filter (validPublicKey env) (drop i walletAddresses)"
      unfolding batch_def
      by (metis add.commute append_take_drop_id drop_drop filter_append)
    with first later w2 show ?thesis
      unfolding unfold by (intro exI [of _ "first @ later"]) simp
  qed
qed


lemma subscribe_loop_done:
  assumes "\<not> i < length walletAddresses"
  shows "subscribeToWalletTransactions_loop env walletAddresses i w = w"
  using assms by (subst subscribeToWalletTransactions_loop.simps) simp

lemma subscribe_loop_batch:
  assumes "i < length walletAddresses"
  shows "subscribeToWalletTransactions_loop env walletAddresses i w
     = subscribeToWalletTransactions_loop env walletAddresses (i + 5)
         (if i + 5 < length walletAddresses
          then sleep 200 (fold (subscribeWallet env) (take 5 (drop i walletAddresses)) w)
          else fold (subscribeWallet env) (take 5 (drop i walletAddresses)) w)"
  using assms by (subst subscribeToWalletTransactions_loop.simps) (simp add: Let_def)

text \<open>
  C9, as the code has it. \<^verbatim>\<open>subscribeToWalletTransactions\<close> opens one listener for
  every valid address of its list, in order, and closes none. The \<^verbatim>\<open>subscriptions\<close>
  map keeps one entry per address: subscribing an address puts the handle just opened
  in the place of the one tracked before.
\<close>

theorem subscriptions_track_latest_handle:
  "(\<exists>opened.
      listeners (subscribeToWalletTransactions env walletAddresses w) = listeners w @ opened
    \<and> map (\<lambda>(connection, subscriptionId, addr). addr) opened
        = filter (validPublicKey env) walletAddresses)
   \<and> (distinct (map fst (subscriptions w))
        \<longrightarrow> distinct (map fst (subscriptions
              (subscribeToWalletTransactions env walletAddresses w))))
   \<and> (validPublicKey env addr
        \<longrightarrow> (\<exists>connection subscriptionId.
               listeners (subscribeWallet env addr w)
                 = listeners w @ [(connection, subscriptionId, addr)]
             \<and> map_of (subscriptions (subscribeWallet env addr w)) addr
                 = Some (subscriptionId, connection)))"
proof -
  obtain opened where all:
    "listeners (subscribeToWalletTransactions env walletAddresses w) = listeners w @ opened"
    "map (\<lambda>(connection, subscriptionId, addr). addr) opened
       = filter (validPublicKey env) walletAddresses"
    "distinct (map fst (subscriptions w))
       \<longrightarrow> distinct (map fst (subscriptions
             (subscribeToWalletTransactions env walletAddresses w)))"
    using subscribe_loop_effect [of env walletAddresses 0 w]
    unfolding subscribeToWalletTransactions_def by auto
  have one: "\<exists>connection subscriptionId.
               listeners (subscribeWallet env addr w)
                 = listeners w @ [(connection, subscriptionId, addr)]
             \<and> map_of (subscriptions (subscribeWallet env addr w)) addr
                 = Some (subscriptionId, connection)"
    if "validPublicKey env addr"
    using subscribeWallet_effect [of env addr w] that
    by (auto simp: update_conv')
  from all one show ?thesis by blast
qed

lemma subscribed_twice:
  "listeners (subscribeToWalletTransactions (holdersChain []) [''A'']
                (subscribeToWalletTransactions (holdersChain []) [''A''] (freshWorld 0 [])))
     = [(Pool 0, 0, ''A''), (Pool 0, 1, ''A'')]
   \<and> subscriptions (subscribeToWalletTransactions (holdersChain []) [''A'']
                (subscribeToWalletTransactions (holdersChain []) [''A''] (freshWorld 0 [])))
     = [(''A'', 1, Pool 0)]"
  by (simp add: subscribeToWalletTransactions_def subscribe_loop_batch subscribe_loop_done
        subscribeWallet_def onAccountChange_def holdersChain_def run_simps)

text \<open>
  Four addresses, one of them invalid and one given twice: three listeners, two entries,
  the entry of the repeated address holding its second handle.
\<close>

theorem subscriptions_track_latest_handle_witness:
  "(\<exists>opened.
      listeners (subscribeToWalletTransactions (holdersChain []) [''A'', ''B'', [], ''A'']
                   (freshWorld 0 [])) = opened
    \<and> map (\<lambda>(connection, subscriptionId, addr). addr) opened = [''A'', ''B'', ''A''])
   \<and> subscriptions (subscribeToWalletTransactions (holdersChain []) [''A'', ''B'', [], ''A'']
                      (freshWorld 0 []))
       = [(''A'', 2, Pool 0), (''B'', 1, Pool 0)]"
proof -
  have tracked: "subscriptions (subscribeToWalletTransactions (holdersChain [])
                    [''A'', ''B'', [], ''A''] (freshWorld 0 []))
       = [(''A'', 2, Pool 0), (''B'', 1, Pool 0)]"
    by (simp add: subscribeToWalletTransactions_def subscribe_loop_batch subscribe_loop_done
          subscribeWallet_def onAccountChange_def holdersChain_def run_simps)
  show ?thesis
    using subscriptions_track_latest_handle
      [of "holdersChain []" "[''A'', ''B'', [], ''A'']" "freshWorld 0 []"] tracked
    by (simp add: holdersChain_def freshWorld_def)
qed

text \<open>
  The same address subscribed twice: two listeners are open for it while one is tracked,
  and after \<^verbatim>\<open>unsubscribeAll\<close> the first is still open.
\<close>

theorem one_handle_per_address_counterexample:
  "length (filter (\<lambda>(connection, subscriptionId, addr). addr = ''A'')
       (listeners (subscribeToWalletTransactions (holdersChain []) [''A'']
          (subscribeToWalletTransactions (holdersChain []) [''A''] (freshWorld 0 []))))) = 2
   \<and> listeners (unsubscribeAll (subscribeToWalletTransactions (holdersChain []) [''A'']
          (subscribeToWalletTransactions (holdersChain []) [''A''] (freshWorld 0 []))))
       = [(Pool 0, 0, ''A'')]"
  by (simp add: unsubscribeAll_def subscribed_twice removeAccountChangeListener_def emit_def)

end
